theory Spec2Isabelle
  imports Complex_Main
begin

section \<open>JavaScript values used by the framework\<close>

text \<open>
  A JavaScript \<^verbatim>\<open>number\<close> is an IEEE double. The model keeps the three non-finite
  values and takes every finite number as an exact rational: no rounding error and no
  signed zero. All arithmetic below follows the IEEE rules for the non-finite cases
  (division by zero gives an infinity or \<^verbatim>\<open>NaN\<close>, never an exception).
\<close>

datatype jsnum = Fin rat | PInf | NInf | NaN

fun js_div :: "jsnum \<Rightarrow> jsnum \<Rightarrow> jsnum" where
  "js_div NaN _ = NaN"
| "js_div _ NaN = NaN"
| "js_div (Fin a) (Fin b) =
     (if b = 0 then (if a = 0 then NaN else if 0 < a then PInf else NInf) else Fin (a / b))"
| "js_div (Fin a) PInf = Fin 0"
| "js_div (Fin a) NInf = Fin 0"
| "js_div PInf (Fin b) = (if 0 \<le> b then PInf else NInf)"
| "js_div NInf (Fin b) = (if 0 \<le> b then NInf else PInf)"
| "js_div PInf PInf = NaN"
| "js_div PInf NInf = NaN"
| "js_div NInf PInf = NaN"
| "js_div NInf NInf = NaN"

fun js_sub :: "jsnum \<Rightarrow> jsnum \<Rightarrow> jsnum" where
  "js_sub NaN _ = NaN"
| "js_sub _ NaN = NaN"
| "js_sub (Fin a) (Fin b) = Fin (a - b)"
| "js_sub (Fin a) PInf = NInf"
| "js_sub (Fin a) NInf = PInf"
| "js_sub PInf (Fin b) = PInf"
| "js_sub NInf (Fin b) = NInf"
| "js_sub PInf PInf = NaN"
| "js_sub PInf NInf = PInf"
| "js_sub NInf PInf = NInf"
| "js_sub NInf NInf = NaN"

text \<open>The test \<^verbatim>\<open>x % 1 == 0\<close>: the remainder of a non-finite number is \<^verbatim>\<open>NaN\<close>.\<close>

fun js_mod1_is_zero :: "jsnum \<Rightarrow> bool" where
  "js_mod1_is_zero (Fin q) = (q = of_int \<lfloor>q\<rfloor>)"
| "js_mod1_is_zero _ = False"

text \<open>
  Values that a promise can carry. An object is represented by the primitive value that
  the language's conversion to a primitive (\<^verbatim>\<open>valueOf\<close>, then \<^verbatim>\<open>toString\<close>) returns
  for it, which is all that the loose comparison \<^verbatim>\<open>==\<close> looks at.
\<close>

datatype jsprim =
    JUndefined | JNull | JBool bool | JNumber jsnum | JBigInt int | JSymbol string
  | JString string

datatype jsval = Prim jsprim | Object jsprim

text \<open>
  The comparison \<^verbatim>\<open>x == "fail"\<close>. Against a string, a number, a boolean or a bigint
  is compared with the numeric value of the string, and \<^verbatim>\<open>"fail"\<close> has none;
  \<^verbatim>\<open>null\<close>, \<^verbatim>\<open>undefined\<close> and symbols equal no string; an object is converted to
  a primitive first.
\<close>

fun prim_loose_eq_fail :: "jsprim \<Rightarrow> bool" where
  "prim_loose_eq_fail (JString s) = (s = ''fail'')"
| "prim_loose_eq_fail _ = False"

fun loose_eq_fail :: "jsval \<Rightarrow> bool" where
  "loose_eq_fail (Prim p) = prim_loose_eq_fail p"
| "loose_eq_fail (Object p) = prim_loose_eq_fail p"

subsection \<open>Decimal digits: \<^verbatim>\<open>toFixed\<close> and \<^verbatim>\<open>parseFloat\<close>\<close>

definition digit_char :: "nat \<Rightarrow> char" where
  "digit_char d = ''0123456789'' ! d"

definition is_digit :: "char \<Rightarrow> bool" where
  "is_digit c \<longleftrightarrow> c \<in> set ''0123456789''"

definition digit_val :: "char \<Rightarrow> nat" where
  "digit_val c = of_char c - 48"

function showNat :: "nat \<Rightarrow> string" where
  "showNat n = (if n < 10 then [digit_char n] else showNat (n div 10) @ [digit_char (n mod 10)])"
  by pat_completeness auto
termination
  by (relation "measure id") auto

declare showNat.simps [simp del]

fun frac_digits :: "nat \<Rightarrow> nat \<Rightarrow> string" where
  "frac_digits 0 m = []"
| "frac_digits (Suc f) m = frac_digits f (m div 10) @ [digit_char (m mod 10)]"

text \<open>
  \<^verbatim>\<open>x.toFixed(f)\<close>: the integer \<open>n\<close> with \<open>n / 10^f\<close> nearest to \<open>|x|\<close>, the larger
  one on a tie, printed with exactly \<open>f\<close> digits after the point. (The exponent
  notation that the language uses from \<open>10^21\<close> on is left out: a double that large
  is an integer and never reaches this function in the summary.)
\<close>

definition toFixed :: "nat \<Rightarrow> jsnum \<Rightarrow> string" where
  "toFixed f v =
     (case v of
        NaN \<Rightarrow> ''NaN''
      | PInf \<Rightarrow> ''Infinity''
      | NInf \<Rightarrow> ''-Infinity''
      | Fin x \<Rightarrow>
          (let n = nat \<lfloor>\<bar>x\<bar> * 10 ^ f + 1 / 2\<rfloor>
           in (if x < 0 then ''-'' else '''') @ showNat (n div 10 ^ f) @
              (if f = 0 then '''' else ''.'' @ frac_digits f (n mod 10 ^ f))))"

text \<open>
  The value of \<open>x\<close> rounded to \<open>f\<close> decimal digits, a tie going away from zero.
\<close>

definition rounded :: "nat \<Rightarrow> rat \<Rightarrow> rat" where
  "rounded f x = sgn x * of_int \<lfloor>\<bar>x\<bar> * 10 ^ f + 1 / 2\<rfloor> / 10 ^ f"

definition nat_of_digits :: "string \<Rightarrow> nat" where
  "nat_of_digits s = foldl (\<lambda>acc c. 10 * acc + digit_val c) 0 s"

text \<open>
  \<^verbatim>\<open>parseFloat\<close> on the longest prefix that is a decimal literal: an optional sign,
  then \<^verbatim>\<open>Infinity\<close> or digits with an optional fraction; \<^verbatim>\<open>NaN\<close> when there is no such
  prefix. (Leading white space and exponents do not occur in the strings parsed here.)
\<close>

definition parseUnsigned :: "string \<Rightarrow> jsnum" where
  "parseUnsigned s =
     (if take 8 s = ''Infinity'' then PInf
      else
        (let ip = takeWhile is_digit s; r = dropWhile is_digit s
         in case r of
              c # fs \<Rightarrow>
                (if c = CHR ''.'' then
                   (let fd = takeWhile is_digit fs
                    in if ip = [] \<and> fd = [] then NaN
                       else Fin (of_nat (nat_of_digits ip)
                                 + of_nat (nat_of_digits fd) / 10 ^ length fd))
                 else if ip = [] then NaN else Fin (of_nat (nat_of_digits ip)))
            | [] \<Rightarrow> if ip = [] then NaN else Fin (of_nat (nat_of_digits ip))))"

fun js_neg :: "jsnum \<Rightarrow> jsnum" where
  "js_neg (Fin q) = Fin (- q)"
| "js_neg PInf = NInf"
| "js_neg NInf = PInf"
| "js_neg NaN = NaN"

definition parseFloat :: "string \<Rightarrow> jsnum" where
  "parseFloat s =
     (case s of
        [] \<Rightarrow> NaN
      | c # t \<Rightarrow>
          if c = CHR ''-'' then js_neg (parseUnsigned t)
          else if c = CHR ''+'' then parseUnsigned t
          else parseUnsigned s)"

section \<open>Events, stages and promises\<close>

text \<open>
  Modelled from the spec: the classes \<^verbatim>\<open>Event\<close> and \<^verbatim>\<open>Stage\<close>, the type
  \<^verbatim>\<open>Response\<close> and the \<^verbatim>\<open>metronome\<close> are imported from the package index and are
  not among the sources. An event carries its key, its response time (two virtual-clock
  timestamps) and its response; a field not yet assigned holds a placeholder
  (time \<open>0\<close>, response \<^verbatim>\<open>undefined\<close>).
\<close>

record ResponseTime =
  startTime :: rat
  endTime :: rat

record Event =
  key :: string
  responseTime :: ResponseTime
  response :: jsval

definition new_Event :: "string \<Rightarrow> Event" where
  "new_Event k =
     \<lparr>key = k, responseTime = \<lparr>startTime = 0, endTime = 0\<rparr>, response = Prim JUndefined\<rparr>"

text \<open>
  A promise is described by how it ends: it settles at some virtual time, fulfilled with
  a value or rejected with a reason, or it stays pending for ever.
\<close>

datatype 'a settlement = Fulfilled 'a | Rejected jsval

datatype 'a promise = Settled rat "'a settlement" | Pending

text \<open>
  \<^verbatim>\<open>p.then(f)\<close> and \<^verbatim>\<open>p.catch(g)\<close> for handlers that do not throw. The handler runs
  when \<open>p\<close> settles, so the time it reads from the metronome is the settlement time; it
  is passed to the handler.
\<close>

fun then_p :: "'a promise \<Rightarrow> (rat \<Rightarrow> 'a \<Rightarrow> 'b) \<Rightarrow> 'b promise" where
  "then_p (Settled t (Fulfilled v)) f = Settled t (Fulfilled (f t v))"
| "then_p (Settled t (Rejected r)) f = Settled t (Rejected r)"
| "then_p Pending f = Pending"

fun catch_p :: "'a promise \<Rightarrow> (rat \<Rightarrow> jsval \<Rightarrow> 'a) \<Rightarrow> 'a promise" where
  "catch_p (Settled t (Fulfilled v)) g = Settled t (Fulfilled v)"
| "catch_p (Settled t (Rejected r)) g = Settled t (Fulfilled (g t r))"
| "catch_p Pending g = Pending"

text \<open>
  \<^verbatim>\<open>Promise.all\<close>, awaited at time \<open>now\<close>: rejected with the reason of the earliest
  rejection (the first of the list among simultaneous ones), whatever the other promises
  do; otherwise pending while one of them is; otherwise fulfilled with all the values
  once the last one has settled.
\<close>

fun is_pending :: "'a promise \<Rightarrow> bool" where
  "is_pending Pending = True"
| "is_pending _ = False"

definition earliest :: "rat \<times> jsval \<Rightarrow> (rat \<times> jsval) list \<Rightarrow> rat \<times> jsval" where
  "earliest x xs = foldl (\<lambda>best p. if fst p < fst best then p else best) x xs"

definition promise_all :: "rat \<Rightarrow> 'a promise list \<Rightarrow> 'a list promise" where
  "promise_all now ps =
     (case [(t, r). Settled t (Rejected r) \<leftarrow> ps] of
        x # xs \<Rightarrow> Settled (max now (fst (earliest x xs))) (Rejected (snd (earliest x xs)))
      | [] \<Rightarrow>
          if list_ex is_pending ps then Pending
          else Settled (foldl max now [t. Settled t s \<leftarrow> ps])
                 (Fulfilled [v. Settled t (Fulfilled v) \<leftarrow> ps]))"

text \<open>
  A stage answers each call of \<^verbatim>\<open>accept\<close> with a promise. Stages have state, so the
  answer may depend on how many calls came before: the first argument is the number of
  earlier calls in the run.
\<close>

record Stage =
  accept :: "nat \<Rightarrow> Event \<Rightarrow> jsval promise"

text \<open>
  Modelled from the spec: the virtual clock. \<^verbatim>\<open>start\<close> resets the time to \<open>0\<close>;
  \<^verbatim>\<open>wait(n)\<close> resumes the caller when the time has advanced by \<open>n\<close> ticks, at once for
  a non-positive \<open>n\<close>, and never for a wait that is not a number of ticks.
\<close>

definition metronome_start :: rat where
  "metronome_start = 0"

fun metronome_wait :: "jsnum \<Rightarrow> rat \<Rightarrow> rat option" where
  "metronome_wait (Fin n) now = Some (if n \<le> 0 then now else now + n)"
| "metronome_wait NInf now = Some now"
| "metronome_wait PInf now = None"
| "metronome_wait NaN now = None"

section \<open>The simulation\<close>

record Simulation =
  eventsPer1000Ticks :: rat
  keyspaceMean :: rat
  keyspaceStd :: rat
  arrivalRate :: rat

text \<open>\<^verbatim>\<open>new Simulation()\<close>; the field \<open>arrivalRate\<close> is the private \<^verbatim>\<open>_arrivalRate\<close>.\<close>

definition simulation :: Simulation where
  "simulation = \<lparr>eventsPer1000Ticks = 50, keyspaceMean = 1000, keyspaceStd = 50, arrivalRate = 0\<rparr>"

definition getArrivalRate :: "Simulation \<Rightarrow> rat" where
  "getArrivalRate s = arrivalRate s"

text \<open>
  \<^verbatim>\<open>createEvent\<close>. \<open>random\<close> is the stream of values of \<^verbatim>\<open>Math.random()\<close>, \<open>i\<close> the
  number of events created before this one, \<open>now\<close> the metronome's time at the call.
  \<open>submittedEvent\<close> is the event as \<^verbatim>\<open>accept\<close> receives it: created, with its start
  time stamped.
\<close>

definition submittedEvent :: "(nat \<Rightarrow> rat) \<Rightarrow> nat \<Rightarrow> rat \<Rightarrow> Event" where
  "submittedEvent random i now =
     (let event = new_Event (''e-'' @ showNat (nat \<lfloor>random i * 500\<rfloor>))
      in event\<lparr>responseTime := (responseTime event)\<lparr>startTime := now\<rparr>\<rparr>)"

definition createEvent :: "(nat \<Rightarrow> rat) \<Rightarrow> Stage \<Rightarrow> nat \<Rightarrow> rat \<Rightarrow> Event promise" where
  "createEvent random stage i now =
     (let event = submittedEvent random i now
      in catch_p
           (then_p (accept stage i event)
              (\<lambda>t response.
                 event\<lparr>response := response,
                       responseTime := (responseTime event)\<lparr>endTime := t\<rparr>\<rparr>))
           (\<lambda>t error.
              event\<lparr>response := error,
                    responseTime := (responseTime event)\<lparr>endTime := t\<rparr>\<rparr>))"

text \<open>\<^verbatim>\<open>createEventBatch\<close>: the loop \<^verbatim>\<open>for (i = 0; i < num; i++)\<close> runs \<open>nat num\<close> times.\<close>

definition createEventBatch ::
  "(nat \<Rightarrow> rat) \<Rightarrow> Stage \<Rightarrow> nat \<Rightarrow> rat \<Rightarrow> int \<Rightarrow> Event promise list" where
  "createEventBatch random stage i now num =
     map (\<lambda>j. createEvent random stage (i + j) now) [0..<nat num]"

text \<open>
  The variables of \<^verbatim>\<open>sendEvents\<close> together with the simulation object and the clock.
\<close>

record sendEvents_state =
  self :: Simulation
  clock :: rat
  pendingEvents :: "Event promise list"
  eventsSent :: int

datatype 'a iteration = Break 'a | Wait jsnum 'a

text \<open>
  One pass through the body of \<^verbatim>\<open>while (true)\<close>, up to its \<^verbatim>\<open>break\<close> or its
  \<^verbatim>\<open>await metronome.wait(..)\<close>; \<open>multiple\<close> and \<open>single\<close> are the two branches of
  its \<^verbatim>\<open>if\<close>. The test \<^verbatim>\<open>tickDelta < 1\<close> is true of a finite \<^verbatim>\<open>tickDelta\<close> below
  one and of \<^verbatim>\<open>-Infinity\<close>, for which \<^verbatim>\<open>Math.floor(1 / tickDelta)\<close> is zero, and false
  of \<^verbatim>\<open>Infinity\<close> (a rate of zero) and of \<^verbatim>\<open>NaN\<close>. A finite \<^verbatim>\<open>tickDelta\<close> is not
  zero.
\<close>

definition sendEvents_body ::
  "(nat \<Rightarrow> rat) \<Rightarrow> Stage \<Rightarrow> int \<Rightarrow> sendEvents_state \<Rightarrow> sendEvents_state iteration" where
  "sendEvents_body random stage numEventsToSend s0 =
     (let s = s0\<lparr>self := (self s0)\<lparr>arrivalRate := eventsPer1000Ticks (self s0)\<rparr>\<rparr>;
          tickDelta = js_div (Fin 1000) (Fin (eventsPer1000Ticks (self s)));
          multiple = (\<lambda>perTick.
            let eventsToSendThisTick =
                  (if eventsSent s + perTick > numEventsToSend
                   then numEventsToSend - eventsSent s else perTick);
                s1 = s\<lparr>pendingEvents := pendingEvents s @
                           createEventBatch random stage (length (pendingEvents s)) (clock s)
                             eventsToSendThisTick,
                        eventsSent := eventsSent s + eventsToSendThisTick\<rparr>
            in if eventsSent s1 \<ge> numEventsToSend then Break s1 else Wait (Fin 1) s1);
          single =
            (let s1 = s\<lparr>pendingEvents := pendingEvents s @
                           [createEvent random stage (length (pendingEvents s)) (clock s)],
                        eventsSent := eventsSent s + 1\<rparr>
             in if eventsSent s1 \<ge> numEventsToSend then Break s1 else Wait tickDelta s1)
      in case tickDelta of
           Fin d \<Rightarrow> if d < 1 then multiple \<lfloor>1 / d\<rfloor> else single
         | NInf \<Rightarrow> multiple 0
         | PInf \<Rightarrow> single
         | NaN \<Rightarrow> single)"

partial_function (option) sendEvents_loop ::
  "(nat \<Rightarrow> rat) \<Rightarrow> Stage \<Rightarrow> int \<Rightarrow> sendEvents_state \<Rightarrow> sendEvents_state option" where
  "sendEvents_loop random stage numEventsToSend s =
     (case sendEvents_body random stage numEventsToSend s of
        Break s1 \<Rightarrow> Some s1
      | Wait d s1 \<Rightarrow>
          (case metronome_wait d (clock s1) of
             None \<Rightarrow> None
           | Some t \<Rightarrow> sendEvents_loop random stage numEventsToSend (s1\<lparr>clock := t\<rparr>)))"

declare sendEvents_loop.simps [code]

text \<open>The variables of \<^verbatim>\<open>sendEvents\<close> when the loop is entered.\<close>

definition initial_state :: "Simulation \<Rightarrow> rat \<Rightarrow> sendEvents_state" where
  "initial_state sim now = \<lparr>self = sim, clock = now, pendingEvents = [], eventsSent = 0\<rparr>"

text \<open>
  \<^verbatim>\<open>sendEvents\<close>: \<open>None\<close> when the loop never leaves. The result holds the promises,
  the simulation object and the time at which the loop left.
\<close>

definition sendEvents ::
  "(nat \<Rightarrow> rat) \<Rightarrow> Simulation \<Rightarrow> rat \<Rightarrow> Stage \<Rightarrow> int \<Rightarrow> sendEvents_state option" where
  "sendEvents random sim now stage numEventsToSend =
     (case sendEvents_loop random stage numEventsToSend (initial_state sim now) of
        None \<Rightarrow> None
      | Some s \<Rightarrow> Some (s\<lparr>self := (self s)\<lparr>arrivalRate := 0\<rparr>\<rparr>))"

text \<open>
  \<^verbatim>\<open>run\<close>: \<open>None\<close> when it never returns, otherwise the simulation object afterwards and
  how the promise that \<^verbatim>\<open>run\<close> returned settled. (The constant \<^verbatim>\<open>delta\<close> of the source
  is not used; \<^verbatim>\<open>metronome.stop()\<close> has no effect on the result.)
\<close>

definition run ::
  "(nat \<Rightarrow> rat) \<Rightarrow> Simulation \<Rightarrow> Stage \<Rightarrow> int \<Rightarrow> (Simulation \<times> Event list settlement) option" where
  "run random sim stage numEventsToSend =
     (case sendEvents random sim metronome_start stage numEventsToSend of
        None \<Rightarrow> None
      | Some s \<Rightarrow>
          (case promise_all (clock s) (pendingEvents s) of
             Pending \<Rightarrow> None
           | Settled t r \<Rightarrow> Some (self s, r)))"

text \<open>
  The state at the top of the loop at the start of pass \<open>i\<close> (pass \<open>0\<close> is the first),
  \<open>None\<close> when the loop has left or hangs before.
\<close>

fun loop_head ::
  "(nat \<Rightarrow> rat) \<Rightarrow> Stage \<Rightarrow> int \<Rightarrow> sendEvents_state \<Rightarrow> nat \<Rightarrow> sendEvents_state option" where
  "loop_head random stage numEventsToSend s0 0 = Some s0"
| "loop_head random stage numEventsToSend s0 (Suc i) =
     (case loop_head random stage numEventsToSend s0 i of
        None \<Rightarrow> None
      | Some s \<Rightarrow>
          (case sendEvents_body random stage numEventsToSend s of
             Break s1 \<Rightarrow> None
           | Wait d s1 \<Rightarrow>
               (case metronome_wait d (clock s1) of
                  None \<Rightarrow> None
                | Some t \<Rightarrow> Some (s1\<lparr>clock := t\<rparr>))))"

section \<open>The statistics\<close>

datatype cell = CNum jsnum | CStr string

record ResponseData =
  rtype :: string
  props :: "(string \<times> cell) list"

type_synonym Summary = "ResponseData list"

type_synonym EventSummaryColumnFunction = "Event list \<Rightarrow> jsnum"

definition latency :: "Event \<Rightarrow> rat" where
  "latency e = endTime (responseTime e) - startTime (responseTime e)"

definition count_col :: EventSummaryColumnFunction where
  "count_col e = Fin (of_nat (length e))"

definition percent :: "Event list \<Rightarrow> EventSummaryColumnFunction" where
  "percent events e =
     (if length events > 0 then js_div (Fin (of_nat (length e))) (Fin (of_nat (length events)))
      else Fin 0)"

definition mean_latency :: EventSummaryColumnFunction where
  "mean_latency e =
     js_div (Fin (foldl (\<lambda>sum cur. sum + cur) 0 (map latency e))) (Fin (of_nat (length e)))"

text \<open>
  \<^verbatim>\<open>standardDeviation\<close> is imported from the package index and is not among the
  sources: it is a parameter, \<open>sd\<close>, of everything that uses it.
\<close>

definition std_latency :: "(rat list \<Rightarrow> jsnum) \<Rightarrow> EventSummaryColumnFunction" where
  "std_latency sd e = sd (map latency e)"

definition names :: "string list" where
  "names = [''count'', ''percent'', ''mean_latency'', ''std_latency'']"

definition propName :: "nat \<Rightarrow> string" where
  "propName i = (if i < length names then names ! i else ''Column '' @ showNat i)"

definition format_cell :: "nat \<Rightarrow> jsnum \<Rightarrow> cell" where
  "format_cell precision result =
     (if js_mod1_is_zero result then CNum result else CStr (toFixed precision result))"

text \<open>
  The two buckets that the \<^verbatim>\<open>forEach\<close> of \<^verbatim>\<open>createEventSummary\<close> fills, and its list
  \<^verbatim>\<open>columns\<close>. The property names of a row are pairwise distinct, so that the pairs
  of a row, in the order of assignment, are the object.
\<close>

definition fail_bucket :: "Event list \<Rightarrow> Event list" where
  "fail_bucket events = filter (\<lambda>e. loose_eq_fail (response e)) events"

definition success_bucket :: "Event list \<Rightarrow> Event list" where
  "success_bucket events = filter (\<lambda>e. \<not> loose_eq_fail (response e)) events"

definition summary_columns ::
  "(rat list \<Rightarrow> jsnum) \<Rightarrow> Event list \<Rightarrow> EventSummaryColumnFunction list option
   \<Rightarrow> EventSummaryColumnFunction list" where
  "summary_columns sd events additionalColumns =
     (let others = (case additionalColumns of None \<Rightarrow> [] | Some cs \<Rightarrow> cs)
      in [count_col, percent events, mean_latency, std_latency sd] @ others)"

definition createEventSummary ::
  "(rat list \<Rightarrow> jsnum) \<Rightarrow> Event list \<Rightarrow> EventSummaryColumnFunction list option \<Rightarrow> Summary" where
  "createEventSummary sd events additionalColumns =
     (let success = success_bucket events;
          fail = fail_bucket events;
          columns = summary_columns sd events additionalColumns;
          precision = 3;
          successRow = \<lparr>rtype = ''success'',
             props = map (\<lambda>(i, col). (propName i, format_cell precision (col success)))
                       (enumerate 0 columns)\<rparr>;
          failRow = \<lparr>rtype = ''fail'',
             props = map (\<lambda>(i, col). (propName i, format_cell precision (col fail)))
                       (enumerate 0 columns)\<rparr>
      in [successRow, failRow])"

text \<open>
  Reading a property of a row: \<open>None\<close> is \<^verbatim>\<open>undefined\<close>. In \<^verbatim>\<open>b.count - a.count\<close> an
  operand is converted to a number (\<^verbatim>\<open>undefined\<close> to \<^verbatim>\<open>NaN\<close>; for the decimal texts
  that a row can hold the conversion agrees with \<^verbatim>\<open>parseFloat\<close>). \<^verbatim>\<open>parseFloat\<close>
  converts its argument to a string and parses it, which gives a number back unchanged.
\<close>

definition get_prop :: "ResponseData \<Rightarrow> string \<Rightarrow> cell option" where
  "get_prop r name = map_of (props r) name"

fun toNumber :: "cell option \<Rightarrow> jsnum" where
  "toNumber None = NaN"
| "toNumber (Some (CNum v)) = v"
| "toNumber (Some (CStr s)) = parseFloat s"

fun parseFloat_cell :: "cell option \<Rightarrow> jsnum" where
  "parseFloat_cell None = NaN"
| "parseFloat_cell (Some (CNum v)) = v"
| "parseFloat_cell (Some (CStr s)) = parseFloat s"

text \<open>
  \<^verbatim>\<open>eventCompare\<close> prints a table; the model returns the table. Both rows of the
  source are built by the same four expressions, written once here.
\<close>

definition diff_row :: "nat \<Rightarrow> string \<Rightarrow> ResponseData \<Rightarrow> ResponseData \<Rightarrow> ResponseData" where
  "diff_row precision ty a b =
     \<lparr>rtype = ty,
      props =
        [(''count'', CNum (js_sub (toNumber (get_prop b ''count'')) (toNumber (get_prop a ''count'')))),
         (''percent'', CStr (toFixed precision
            (js_sub (parseFloat_cell (get_prop b ''percent'')) (parseFloat_cell (get_prop a ''percent''))))),
         (''mean_latency'', CStr (toFixed precision
            (js_sub (parseFloat_cell (get_prop b ''mean_latency''))
                    (parseFloat_cell (get_prop a ''mean_latency''))))),
         (''std_latency'', CStr (toFixed precision
            (js_sub (parseFloat_cell (get_prop b ''std_latency''))
                    (parseFloat_cell (get_prop a ''std_latency'')))))]\<rparr>"

definition eventCompare :: "(rat list \<Rightarrow> jsnum) \<Rightarrow> Event list \<Rightarrow> Event list \<Rightarrow> Summary" where
  "eventCompare sd a b =
     (let aSummary = createEventSummary sd a None;
          bSummary = createEventSummary sd b None;
          aSuccess = aSummary ! 0;
          bSuccess = bSummary ! 0;
          aFail = aSummary ! 1;
          bFail = bSummary ! 1;
          precision = 3
      in [diff_row precision ''success'' aSuccess bSuccess,
          diff_row precision ''fail'' aFail bFail])"

section \<open>Concrete stages and events\<close>

text \<open>
  Instances for the examples below: a source of random numbers that always returns one
  half (every key is \<^verbatim>\<open>e-250\<close>), stages that settle every call after a fixed delay, a
  finished event, two collections of finished events, and the standard deviation of
  samples that are all equal.
\<close>

definition constant_random :: "nat \<Rightarrow> rat" where
  "constant_random i = 1 / 2"

definition fulfilling_stage :: "jsval \<Rightarrow> rat \<Rightarrow> Stage" where
  "fulfilling_stage v delay =
     \<lparr>accept = (\<lambda>i e. Settled (startTime (responseTime e) + delay) (Fulfilled v))\<rparr>"


definition alternating_stage :: "rat \<Rightarrow> Stage" where
  "alternating_stage delay =
     \<lparr>accept = (\<lambda>i e. Settled (startTime (responseTime e) + delay)
                  (if even i then Rejected (Prim (JString ''fail''))
                   else Fulfilled (Prim (JString ''success''))))\<rparr>"

definition finished_event :: "jsval \<Rightarrow> rat \<Rightarrow> rat \<Rightarrow> Event" where
  "finished_event v t0 t1 =
     \<lparr>key = ''e-250'', responseTime = \<lparr>startTime = t0, endTime = t1\<rparr>, response = v\<rparr>"

definition sd_of_equal_samples :: "rat list \<Rightarrow> jsnum" where
  "sd_of_equal_samples xs = (if xs = [] then NaN else Fin 0)"



section \<open>Notions used in the statements about the arrival loop\<close>

text \<open>
  The state after one pass of the loop body that created the promises \<open>evs\<close> and added
  \<open>e\<close> to \<open>eventsSent\<close>.
\<close>

definition after_emit :: "sendEvents_state \<Rightarrow> Event promise list \<Rightarrow> int \<Rightarrow> sendEvents_state" where
  "after_emit s evs e =
     \<lparr>self = (self s)\<lparr>arrivalRate := eventsPer1000Ticks (self s)\<rparr>,
      clock = clock s,
      pendingEvents = pendingEvents s @ evs,
      eventsSent = eventsSent s + e\<rparr>"

text \<open>
  The number that the batching branch adds to \<open>eventsSent\<close> in one pass: the value of
  \<^verbatim>\<open>eventsToSendThisTick\<close> after the clamp.
\<close>

definition batch_size :: "rat \<Rightarrow> int \<Rightarrow> int \<Rightarrow> int" where
  "batch_size rate N sent =
     (if N < sent + \<lfloor>1 / (1000 / rate)\<rfloor> then N - sent else \<lfloor>1 / (1000 / rate)\<rfloor>)"

text \<open>A promise that is not rejected, whenever and however it ends.\<close>

definition never_rejected :: "'a promise \<Rightarrow> bool" where
  "never_rejected p \<longleftrightarrow> (\<forall>t r. p \<noteq> Settled t (Rejected r))"

section \<open>Printing and parsing decimals\<close>

lemma digit_val_digit_char: "d < 10 \<Longrightarrow> digit_val (digit_char d) = d"
proof -
  assume "d < 10"
  then have "d = 0 \<or> d = 1 \<or> d = 2 \<or> d = 3 \<or> d = 4 \<or> d = 5 \<or> d = 6 \<or> d = 7 \<or> d = 8 \<or> d = 9"
    by arith
  then show ?thesis
    by (elim disjE) (simp_all add: digit_val_def digit_char_def)
qed

lemma is_digit_digit_char: "d < 10 \<Longrightarrow> is_digit (digit_char d)"
proof -
  assume "d < 10"
  then have "d = 0 \<or> d = 1 \<or> d = 2 \<or> d = 3 \<or> d = 4 \<or> d = 5 \<or> d = 6 \<or> d = 7 \<or> d = 8 \<or> d = 9"
    by arith
  then show ?thesis
    by (elim disjE) (simp_all add: is_digit_def digit_char_def)
qed

lemma nat_of_digits_snoc: "nat_of_digits (s @ [c]) = 10 * nat_of_digits s + digit_val c"
  by (simp add: nat_of_digits_def)

lemma showNat_digits: "\<forall>c \<in> set (showNat n). is_digit c"
proof (induction n rule: showNat.induct)
  case (1 n)
  show ?case
  proof (cases "n < 10")
    case True
    then show ?thesis by (subst showNat.simps) (simp add: is_digit_digit_char)
  next
    case False
    with 1 show ?thesis by (subst showNat.simps) (simp add: is_digit_digit_char)
  qed
qed

lemma showNat_nonempty: "showNat n \<noteq> []"
  by (subst showNat.simps) simp

lemma nat_of_digits_showNat: "nat_of_digits (showNat n) = n"
proof (induction n rule: showNat.induct)
  case (1 n)
  show ?case
  proof (cases "n < 10")
    case True
    then show ?thesis
      by (subst showNat.simps) (simp add: nat_of_digits_def digit_val_digit_char)
  next
    case False
    with 1 have "nat_of_digits (showNat (n div 10)) = n div 10" by simp
    with False show ?thesis
      by (subst showNat.simps) (simp add: nat_of_digits_snoc digit_val_digit_char)
  qed
qed

lemma frac_digits_length: "length (frac_digits f m) = f"
  by (induction f arbitrary: m) simp_all

lemma frac_digits_digits: "\<forall>c \<in> set (frac_digits f m). is_digit c"
  by (induction f arbitrary: m) (simp_all add: is_digit_digit_char)

lemma nat_of_digits_frac_digits: "nat_of_digits (frac_digits f m) = m mod 10 ^ f"
proof (induction f arbitrary: m)
  case 0
  show ?case by (simp add: nat_of_digits_def)
next
  case (Suc f)
  have "m mod 10 ^ Suc f = 10 * (m div 10 mod 10 ^ f) + m mod 10"
    by (simp add: mod_mult2_eq)
  with Suc show ?case
    by (simp add: nat_of_digits_snoc digit_val_digit_char)
qed

lemma takeWhile_digits_dot:
  "\<forall>c \<in> set ds. is_digit c \<Longrightarrow> takeWhile is_digit (ds @ CHR ''.'' # rest) = ds"
  by (simp add: takeWhile_append2 is_digit_def)

lemma dropWhile_digits_dot:
  "\<forall>c \<in> set ds. is_digit c \<Longrightarrow> dropWhile is_digit (ds @ CHR ''.'' # rest) = CHR ''.'' # rest"
  by (simp add: dropWhile_append2 is_digit_def)

lemma takeWhile_all_digits: "\<forall>c \<in> set ds. is_digit c \<Longrightarrow> takeWhile is_digit ds = ds"
  by (simp add: takeWhile_eq_all_conv)

lemma not_Infinity: "s \<noteq> [] \<Longrightarrow> \<forall>c \<in> set s. is_digit c \<Longrightarrow> take 8 (s @ t) \<noteq> ''Infinity''"
  by (cases s) (auto simp: is_digit_def)

lemma parseUnsigned_decimal:
  assumes "0 < f"
  shows "parseUnsigned (showNat a @ ''.'' @ frac_digits f m)
         = Fin (of_nat a + of_nat (m mod 10 ^ f) / 10 ^ f)"
proof -
  have fd: "frac_digits f m \<noteq> []" using assms frac_digits_length[of f m] by auto
  show ?thesis
    using not_Infinity[OF showNat_nonempty showNat_digits, of a "''.'' @ frac_digits f m"] fd
    by (simp add: parseUnsigned_def takeWhile_digits_dot[OF showNat_digits]
        dropWhile_digits_dot[OF showNat_digits] takeWhile_all_digits[OF frac_digits_digits]
        nat_of_digits_showNat nat_of_digits_frac_digits frac_digits_length showNat_nonempty Let_def)
qed

lemma showNat_hd: "hd (showNat n) \<noteq> CHR ''-'' \<and> hd (showNat n) \<noteq> CHR ''+''"
  using showNat_digits[of n] showNat_nonempty[of n]
  by (cases "showNat n") (auto simp: is_digit_def)

lemma div_mod_decimal:
  "(of_nat (n div 10 ^ f) :: rat) + of_nat (n mod 10 ^ f mod 10 ^ f) / 10 ^ f = of_nat n / 10 ^ f"
proof -
  have "(of_nat n :: rat) = of_nat (n div 10 ^ f * 10 ^ f + n mod 10 ^ f)"
    by (simp only: div_mult_mod_eq)
  also have "\<dots> = of_nat (n div 10 ^ f) * 10 ^ f + of_nat (n mod 10 ^ f)"
    by (simp only: of_nat_add of_nat_mult of_nat_power of_nat_numeral)
  finally show ?thesis
    by (simp add: field_simps)
qed

lemma parseFloat_unsigned:
  "parseFloat (showNat a @ t) = parseUnsigned (showNat a @ t)"
  using showNat_hd[of a] showNat_nonempty[of a]
  by (cases "showNat a") (auto simp: parseFloat_def)

lemma parseFloat_toFixed:
  assumes "0 < f"
  shows "parseFloat (toFixed f (Fin x)) = Fin (rounded f x)"
proof -
  define n where "n = nat \<lfloor>\<bar>x\<bar> * 10 ^ f + 1 / 2\<rfloor>"
  have nonneg: "0 \<le> \<lfloor>\<bar>x\<bar> * 10 ^ f + 1 / 2\<rfloor>"
    by simp
  then have n: "(of_nat n :: rat) = of_int \<lfloor>\<bar>x\<bar> * 10 ^ f + 1 / 2\<rfloor>"
    unfolding n_def by simp
  have body: "parseUnsigned (showNat (n div 10 ^ f) @ ''.'' @ frac_digits f (n mod 10 ^ f))
              = Fin (of_nat n / 10 ^ f)"
    using parseUnsigned_decimal[OF assms, of "n div 10 ^ f" "n mod 10 ^ f"]
    by (simp only: div_mod_decimal)
  show ?thesis
  proof (cases "x < 0")
    case True
    then have "toFixed f (Fin x)
        = CHR ''-'' # (showNat (n div 10 ^ f) @ ''.'' @ frac_digits f (n mod 10 ^ f))"
      using assms by (simp add: toFixed_def n_def Let_def)
    then have "parseFloat (toFixed f (Fin x)) = Fin (- (of_nat n / 10 ^ f))"
      using body by (simp add: parseFloat_def)
    with True show ?thesis
      by (simp add: rounded_def n)
  next
    case False
    then have "toFixed f (Fin x)
        = showNat (n div 10 ^ f) @ ''.'' @ frac_digits f (n mod 10 ^ f)"
      using assms by (simp add: toFixed_def n_def Let_def)
    then have "parseFloat (toFixed f (Fin x)) = Fin (of_nat n / 10 ^ f)"
      using body parseFloat_unsigned by simp
    moreover have "of_nat n / 10 ^ f = rounded f x"
    proof (cases "x = 0")
      case True
      then show ?thesis by (simp add: rounded_def n_def)
    next
      case False
      with \<open>\<not> x < 0\<close> have "sgn x = 1" by simp
      then show ?thesis by (simp add: rounded_def n)
    qed
    ultimately show ?thesis by simp
  qed
qed


section \<open>The summary: buckets, columns and cells\<close>

lemma foldl_add_sum_list: "foldl (\<lambda>sum cur. sum + cur) a xs = a + sum_list (xs :: rat list)"
  by (induction xs arbitrary: a) (simp_all add: add.assoc)

lemma mean_latency_eq:
  "mean_latency b = (if b = [] then NaN else Fin (sum_list (map latency b) / of_nat (length b)))"
  by (simp add: mean_latency_def foldl_add_sum_list)


lemma summary_rows:
  "createEventSummary sd events cols =
     [\<lparr>rtype = ''success'', props = map (\<lambda>(i, col). (propName i, format_cell 3 (col (success_bucket events))))
          (enumerate 0 (summary_columns sd events cols))\<rparr>,
      \<lparr>rtype = ''fail'', props = map (\<lambda>(i, col). (propName i, format_cell 3 (col (fail_bucket events))))
          (enumerate 0 (summary_columns sd events cols))\<rparr>]"
  by (simp add: createEventSummary_def Let_def)

lemma summary_columns_Cons:
  "summary_columns sd events cols =
     count_col # percent events # mean_latency # std_latency sd # (case cols of None \<Rightarrow> [] | Some cs \<Rightarrow> cs)"
  by (simp add: summary_columns_def)


lemma propName_simps:
  "propName 0 = ''count''" "propName (Suc 0) = ''percent''"
  "propName (Suc (Suc 0)) = ''mean_latency''" "propName (Suc (Suc (Suc 0))) = ''std_latency''"
  by (simp_all add: propName_def names_def)

lemma summary_success_props:
  "get_prop (createEventSummary sd events cols ! 0) ''count'' = Some (format_cell 3 (count_col (success_bucket events)))"
  "get_prop (createEventSummary sd events cols ! 0) ''percent'' = Some (format_cell 3 (percent events (success_bucket events)))"
  "get_prop (createEventSummary sd events cols ! 0) ''mean_latency'' = Some (format_cell 3 (mean_latency (success_bucket events)))"
  "get_prop (createEventSummary sd events cols ! 0) ''std_latency'' = Some (format_cell 3 (std_latency sd (success_bucket events)))"
  by (simp_all add: summary_rows summary_columns_Cons get_prop_def propName_simps)

lemma summary_fail_props:
  "get_prop (createEventSummary sd events cols ! Suc 0) ''count'' = Some (format_cell 3 (count_col (fail_bucket events)))"
  "get_prop (createEventSummary sd events cols ! Suc 0) ''percent'' = Some (format_cell 3 (percent events (fail_bucket events)))"
  "get_prop (createEventSummary sd events cols ! Suc 0) ''mean_latency'' = Some (format_cell 3 (mean_latency (fail_bucket events)))"
  "get_prop (createEventSummary sd events cols ! Suc 0) ''std_latency'' = Some (format_cell 3 (std_latency sd (fail_bucket events)))"
  by (simp_all add: summary_rows summary_columns_Cons get_prop_def propName_simps)

lemma format_cell_count: "format_cell f (count_col b) = CNum (Fin (of_nat (length b)))"
  by (simp add: format_cell_def count_col_def)



lemma js_mod1_is_zero_iff: "js_mod1_is_zero v \<longleftrightarrow> (\<exists>k::int. v = Fin (of_int k))"
proof (cases v)
  case (Fin q)
  have "q = of_int \<lfloor>q\<rfloor> \<longleftrightarrow> (\<exists>k::int. q = of_int k)"
  proof
    assume "q = of_int \<lfloor>q\<rfloor>"
    then show "\<exists>k::int. q = of_int k" ..
  next
    assume "\<exists>k::int. q = of_int k"
    then obtain k :: int where "q = of_int k" ..
    then show "q = of_int \<lfloor>q\<rfloor>" by simp
  qed
  with Fin show ?thesis by simp
qed simp_all

lemma rounded_of_int: "0 < f \<Longrightarrow> rounded f (of_int k) = of_int k"
proof -
  assume "0 < f"
  have "\<bar>of_int k :: rat\<bar> * 10 ^ f = of_int (\<bar>k\<bar> * 10 ^ f)" by simp
  then have "\<lfloor>\<bar>of_int k :: rat\<bar> * 10 ^ f + 1 / 2\<rfloor> = \<bar>k\<bar> * 10 ^ f"
    by (intro floor_unique) simp_all
  then show ?thesis
    by (simp add: rounded_def mult_sgn_abs)
qed

lemma parseFloat_cell_format:
  "parseFloat_cell (Some (format_cell 3 v)) = (case v of Fin q \<Rightarrow> Fin (rounded 3 q) | _ \<Rightarrow> v)"
proof (cases v)
  case (Fin q)
  show ?thesis
  proof (cases "js_mod1_is_zero v")
    case True
    then obtain k :: int where "q = of_int k" using Fin by (auto simp: js_mod1_is_zero_iff)
    with Fin True show ?thesis by (simp add: format_cell_def rounded_of_int)
  next
    case False
    with Fin show ?thesis by (simp add: format_cell_def parseFloat_toFixed)
  qed
next
  case PInf
  then show ?thesis by (simp add: format_cell_def toFixed_def parseFloat_def parseUnsigned_def)
next
  case NInf
  then show ?thesis by (simp add: format_cell_def toFixed_def parseFloat_def parseUnsigned_def)
next
  case NaN
  then show ?thesis
    by (simp add: format_cell_def toFixed_def parseFloat_def parseUnsigned_def is_digit_def)
qed

lemma toFixed_zero: "toFixed 3 (Fin 0) = ''0.000''"
  by code_simp

lemma self_difference:
  "toFixed 3 (js_sub (parseFloat_cell (Some (format_cell 3 v))) (parseFloat_cell (Some (format_cell 3 v))))
     = (case v of Fin q \<Rightarrow> ''0.000'' | _ \<Rightarrow> ''NaN'')"
  by (cases v) (simp_all add: parseFloat_cell_format toFixed_zero, simp_all add: toFixed_def)




section \<open>The arrival loop\<close>

lemma createEvent_cases:
  "createEvent random stage i now =
     (case accept stage i (submittedEvent random i now) of
        Settled t (Fulfilled v) \<Rightarrow>
          Settled t (Fulfilled ((submittedEvent random i now)
            \<lparr>response := v,
             responseTime := (responseTime (submittedEvent random i now))\<lparr>endTime := t\<rparr>\<rparr>))
      | Settled t (Rejected r) \<Rightarrow>
          Settled t (Fulfilled ((submittedEvent random i now)
            \<lparr>response := r,
             responseTime := (responseTime (submittedEvent random i now))\<lparr>endTime := t\<rparr>\<rparr>))
      | Pending \<Rightarrow> Pending)"
  by (simp add: createEvent_def Let_def split: promise.split settlement.split)

lemma createEvent_not_rejected: "createEvent random stage i now \<noteq> Settled t (Rejected r)"
  by (simp add: createEvent_cases split: promise.split settlement.split)

lemma submittedEvent_startTime: "startTime (responseTime (submittedEvent random i now)) = now"
  by (simp add: submittedEvent_def new_Event_def Let_def)

lemma rejections_empty:
  "\<forall>p \<in> set ps. never_rejected p \<Longrightarrow> [(t, r). Settled t (Rejected r) \<leftarrow> ps] = []"
  by (induction ps) (auto simp: never_rejected_def split: promise.split settlement.split)

lemma promise_all_not_rejected:
  "\<forall>p \<in> set ps. never_rejected p \<Longrightarrow> promise_all now ps \<noteq> Settled t (Rejected r)"
  by (simp add: promise_all_def rejections_empty)

lemma promise_all_fulfilled:
  assumes "\<forall>p \<in> set ps. \<exists>t e. p = Settled t (Fulfilled e) \<and> P e"
  shows "\<exists>T es. promise_all now ps = Settled T (Fulfilled es) \<and> length es = length ps
           \<and> (\<forall>e \<in> set es. P e)"
proof -
  have nr: "\<forall>p \<in> set ps. never_rejected p"
    using assms by (auto simp: never_rejected_def)
  have np: "\<not> list_ex is_pending ps"
    using assms by (auto simp: list_ex_iff)
  have vals: "length [v. Settled t (Fulfilled v) \<leftarrow> ps] = length ps
      \<and> (\<forall>e \<in> set [v. Settled t (Fulfilled v) \<leftarrow> ps]. P e)"
    using assms by (induction ps) auto
  show ?thesis
    using vals np by (simp add: promise_all_def rejections_empty[OF nr])
qed

lemma sendEvents_loop_rule:
  assumes ret: "sendEvents_loop random stage N s = Some s'"
    and init: "I s"
    and brk: "\<And>s s1. I s \<Longrightarrow> sendEvents_body random stage N s = Break s1 \<Longrightarrow> Q s1"
    and cont: "\<And>s d s1 t. I s \<Longrightarrow> sendEvents_body random stage N s = Wait d s1 \<Longrightarrow>
                 metronome_wait d (clock s1) = Some t \<Longrightarrow> I (s1\<lparr>clock := t\<rparr>)"
  shows "Q s'"
proof -
  let ?P = "\<lambda>random' stage' N' s0 y. random' = random \<and> stage' = stage \<and> N' = N \<and> I s0 \<longrightarrow> Q y"
  have "?P random stage N s s'"
  proof (rule sendEvents_loop.raw_induct[where P = ?P, OF _ ret])
    fix loop random' stage' N' s0 y
    assume IH: "\<And>random'' stage'' N'' s1 y'. loop random'' stage'' N'' s1 = Some y' \<Longrightarrow>
                  ?P random'' stage'' N'' s1 y'"
      and unf: "(case sendEvents_body random' stage' N' s0 of
                  Break s1 \<Rightarrow> Some s1
                | Wait d s1 \<Rightarrow>
                    (case metronome_wait d (clock s1) of
                       None \<Rightarrow> None
                     | Some t \<Rightarrow> loop random' stage' N' (s1\<lparr>clock := t\<rparr>))) = Some y"
    show "?P random' stage' N' s0 y"
    proof (intro impI, elim conjE)
      assume eq: "random' = random" "stage' = stage" "N' = N" and I: "I s0"
      show "Q y"
      proof (cases "sendEvents_body random stage N s0")
        case (Break s1)
        with unf eq have "s1 = y" by simp
        with brk[OF I Break] show ?thesis by simp
      next
        case (Wait d s1)
        with unf eq obtain t where t: "metronome_wait d (clock s1) = Some t"
          and l: "loop random stage N (s1\<lparr>clock := t\<rparr>) = Some y"
          by (auto split: option.splits)
        from cont[OF I Wait t] IH[OF l] show ?thesis by simp
      qed
    qed
  qed
  with init show ?thesis by simp
qed

lemma after_emit_simps [simp]:
  "self (after_emit s evs e) = (self s)\<lparr>arrivalRate := eventsPer1000Ticks (self s)\<rparr>"
  "clock (after_emit s evs e) = clock s"
  "pendingEvents (after_emit s evs e) = pendingEvents s @ evs"
  "eventsSent (after_emit s evs e) = eventsSent s + e"
  by (simp_all add: after_emit_def)

lemma body_single:
  assumes "0 < eventsPer1000Ticks (self s)" "eventsPer1000Ticks (self s) \<le> 1000"
  shows "sendEvents_body random stage N s =
     (if N \<le> eventsSent s + 1
      then Break (after_emit s [createEvent random stage (length (pendingEvents s)) (clock s)] 1)
      else Wait (Fin (1000 / eventsPer1000Ticks (self s)))
             (after_emit s [createEvent random stage (length (pendingEvents s)) (clock s)] 1))"
proof -
  have "1 \<le> 1000 / eventsPer1000Ticks (self s)"
    using assms by (simp add: le_divide_eq)
  then show ?thesis
    using assms by (simp add: sendEvents_body_def Let_def after_emit_def)
qed

lemma body_zero:
  assumes "eventsPer1000Ticks (self s) = 0"
  shows "sendEvents_body random stage N s =
     (if N \<le> eventsSent s + 1
      then Break (after_emit s [createEvent random stage (length (pendingEvents s)) (clock s)] 1)
      else Wait PInf
             (after_emit s [createEvent random stage (length (pendingEvents s)) (clock s)] 1))"
  using assms by (simp add: sendEvents_body_def Let_def after_emit_def)

lemma body_batch:
  assumes "eventsPer1000Ticks (self s) < 0 \<or> 1000 < eventsPer1000Ticks (self s)"
  shows "sendEvents_body random stage N s =
     (if N \<le> eventsSent s + batch_size (eventsPer1000Ticks (self s)) N (eventsSent s)
      then Break (after_emit s
             (createEventBatch random stage (length (pendingEvents s)) (clock s)
                (batch_size (eventsPer1000Ticks (self s)) N (eventsSent s)))
             (batch_size (eventsPer1000Ticks (self s)) N (eventsSent s)))
      else Wait (Fin 1) (after_emit s
             (createEventBatch random stage (length (pendingEvents s)) (clock s)
                (batch_size (eventsPer1000Ticks (self s)) N (eventsSent s)))
             (batch_size (eventsPer1000Ticks (self s)) N (eventsSent s))))"
proof -
  have "1000 / eventsPer1000Ticks (self s) < 1"
    using assms by (auto simp: divide_less_eq)
  moreover have "eventsPer1000Ticks (self s) \<noteq> 0"
    using assms by auto
  ultimately show ?thesis
    by (simp add: sendEvents_body_def Let_def after_emit_def batch_size_def)
qed

lemma events_per_tick_pos: "1000 < rate \<Longrightarrow> 1 \<le> \<lfloor>1 / (1000 / rate :: rat)\<rfloor>"
  by (simp add: le_floor_iff)


lemma length_createEventBatch: "length (createEventBatch random stage i now num) = nat num"
  by (simp add: createEventBatch_def)

lemma createEventBatch_nth:
  "j < nat num \<Longrightarrow> createEventBatch random stage i now num ! j = createEvent random stage (i + j) now"
  by (simp add: createEventBatch_def)

lemma createEventBatch_set:
  "p \<in> set (createEventBatch random stage i now num) \<Longrightarrow> \<exists>j. p = createEvent random stage j now"
  by (auto simp: createEventBatch_def)

lemma loop_head_Suc_Some:
  assumes "loop_head random stage N s0 i = Some s"
    and "sendEvents_body random stage N s = Wait d s1"
    and "metronome_wait d (clock s1) = Some t"
  shows "loop_head random stage N s0 (Suc i) = Some (s1\<lparr>clock := t\<rparr>)"
  using assms by simp

lemma loop_head_link:
  "loop_head random stage N s0 i = Some s \<Longrightarrow>
     sendEvents_loop random stage N s0 = sendEvents_loop random stage N s"
proof (induction i arbitrary: s)
  case 0
  then show ?case by simp
next
  case (Suc i)
  from Suc.prems obtain s' d s1 t where
    h: "loop_head random stage N s0 i = Some s'"
    and b: "sendEvents_body random stage N s' = Wait d s1"
    and w: "metronome_wait d (clock s1) = Some t"
    and s: "s = s1\<lparr>clock := t\<rparr>"
    by (auto split: option.splits iteration.splits)
  have "sendEvents_loop random stage N s' = sendEvents_loop random stage N s"
    by (subst sendEvents_loop.simps) (simp add: b w s)
  with Suc.IH[OF h] show ?case by simp
qed

lemma loop_exit:
  assumes "loop_head random stage N s0 i = Some s"
    and "sendEvents_body random stage N s = Break s1"
  shows "sendEvents_loop random stage N s0 = Some s1"
proof -
  have "sendEvents_loop random stage N s = Some s1"
    by (subst sendEvents_loop.simps) (simp add: assms(2))
  with loop_head_link[OF assms(1)] show ?thesis by simp
qed

text \<open>The single-event branch: pass \<open>i\<close> starts at time \<open>c0 + i * tickDelta\<close>.\<close>

lemma loop_head_single:
  assumes rate: "0 < eventsPer1000Ticks (self s0)" "eventsPer1000Ticks (self s0) \<le> 1000"
    and init: "pendingEvents s0 = []" "eventsSent s0 = 0"
    and i: "int i < N"
  shows "\<exists>s. loop_head random stage N s0 i = Some s
           \<and> eventsPer1000Ticks (self s) = eventsPer1000Ticks (self s0)
           \<and> eventsSent s = int i
           \<and> clock s = clock s0 + of_nat i * (1000 / eventsPer1000Ticks (self s0))
           \<and> pendingEvents s =
               map (\<lambda>j. createEvent random stage j
                           (clock s0 + of_nat j * (1000 / eventsPer1000Ticks (self s0))))
                 [0..<i]"
  using i
proof (induction i)
  case 0
  show ?case using init by simp
next
  case (Suc i)
  then obtain s where s: "loop_head random stage N s0 i = Some s"
    "eventsPer1000Ticks (self s) = eventsPer1000Ticks (self s0)"
    "eventsSent s = int i"
    "clock s = clock s0 + of_nat i * (1000 / eventsPer1000Ticks (self s0))"
    "pendingEvents s =
       map (\<lambda>j. createEvent random stage j
                   (clock s0 + of_nat j * (1000 / eventsPer1000Ticks (self s0)))) [0..<i]"
    by auto
  let ?d = "1000 / eventsPer1000Ticks (self s0)"
  let ?s1 = "after_emit s [createEvent random stage (length (pendingEvents s)) (clock s)] 1"
  have d: "0 < ?d" using rate by simp
  have b: "sendEvents_body random stage N s = Wait (Fin ?d) ?s1"
    using body_single[of s random stage N] rate s(2,3) Suc.prems by simp
  have w: "metronome_wait (Fin ?d) (clock ?s1) = Some (clock s + ?d)"
    using d by simp
  have lh: "loop_head random stage N s0 (Suc i) = Some (?s1\<lparr>clock := clock s + ?d\<rparr>)"
    by (rule loop_head_Suc_Some[OF s(1) b w])
  show ?case
  proof (intro exI conjI)
    show "loop_head random stage N s0 (Suc i) = Some (?s1\<lparr>clock := clock s + ?d\<rparr>)"
      by (rule lh)
    show "eventsPer1000Ticks (self (?s1\<lparr>clock := clock s + ?d\<rparr>)) = eventsPer1000Ticks (self s0)"
      by (simp add: s)
    show "eventsSent (?s1\<lparr>clock := clock s + ?d\<rparr>) = int (Suc i)"
      by (simp add: s)
    show "clock (?s1\<lparr>clock := clock s + ?d\<rparr>) = clock s0 + of_nat (Suc i) * ?d"
      by (simp add: s ring_distribs add_divide_distrib)
    show "pendingEvents (?s1\<lparr>clock := clock s + ?d\<rparr>) =
            map (\<lambda>j. createEvent random stage j (clock s0 + of_nat j * ?d)) [0..<Suc i]"
      by (simp add: s)
  qed
qed

lemma sendEvents_loop_single:
  assumes rate: "0 < eventsPer1000Ticks (self s0)" "eventsPer1000Ticks (self s0) \<le> 1000"
    and init: "pendingEvents s0 = []" "eventsSent s0 = 0"
    and N: "1 \<le> N"
  shows "\<exists>s. sendEvents_loop random stage N s0 = Some s
           \<and> eventsPer1000Ticks (self s) = eventsPer1000Ticks (self s0)
           \<and> eventsSent s = N
           \<and> pendingEvents s =
               map (\<lambda>j. createEvent random stage j
                           (clock s0 + of_nat j * (1000 / eventsPer1000Ticks (self s0))))
                 [0..<nat N]"
proof -
  have "int (nat (N - 1)) < N" using N by simp
  from loop_head_single[OF rate init this, of random stage]
  obtain s where s: "loop_head random stage N s0 (nat (N - 1)) = Some s"
    "eventsPer1000Ticks (self s) = eventsPer1000Ticks (self s0)"
    "eventsSent s = int (nat (N - 1))"
    "clock s = clock s0 + of_nat (nat (N - 1)) * (1000 / eventsPer1000Ticks (self s0))"
    "pendingEvents s =
       map (\<lambda>j. createEvent random stage j
                   (clock s0 + of_nat j * (1000 / eventsPer1000Ticks (self s0))))
         [0..<nat (N - 1)]"
    by auto
  let ?s1 = "after_emit s [createEvent random stage (length (pendingEvents s)) (clock s)] 1"
  have b: "sendEvents_body random stage N s = Break ?s1"
    using body_single[of s random stage N] rate s(2,3) N by simp
  have n: "nat N = Suc (nat (N - 1))" using N by simp
  have "sendEvents_loop random stage N s0 = Some ?s1"
    by (rule loop_exit[OF s(1) b])
  then show ?thesis
    using s N by (simp add: n)
qed

lemma map_upt_append:
  "map f [0..<a] @ map (\<lambda>j. f (a + j)) [0..<m] = map f [0..<a + m]"
proof -
  have "[a..<a + m] = map (\<lambda>j. a + j) [0..<m]"
    by (induction m) simp_all
  then have "map f [a..<a + m] = map (\<lambda>j. f (a + j)) [0..<m]"
    by (simp only: map_map o_def)
  moreover have "[0..<a + m] = [0..<a] @ [a..<a + m]"
    by (rule upt_add_eq_append) simp
  ultimately show ?thesis
    by (simp only: map_append)
qed

lemma batch_schedule:
  assumes "0 < K" "m \<le> K"
  shows "createEventBatch random stage (K * i) (c0 + of_nat i) (int m)
         = map (\<lambda>j. createEvent random stage (K * i + j) (c0 + of_nat ((K * i + j) div K))) [0..<m]"
  using assms by (simp add: createEventBatch_def)

lemma loop_head_batch:
  assumes rate: "1000 < eventsPer1000Ticks (self s0)"
    and init: "pendingEvents s0 = []" "eventsSent s0 = 0"
    and i: "\<lfloor>1 / (1000 / eventsPer1000Ticks (self s0))\<rfloor> * int i < N"
  shows "\<exists>s. loop_head random stage N s0 i = Some s
           \<and> eventsPer1000Ticks (self s) = eventsPer1000Ticks (self s0)
           \<and> eventsSent s = \<lfloor>1 / (1000 / eventsPer1000Ticks (self s0))\<rfloor> * int i
           \<and> clock s = clock s0 + of_nat i
           \<and> pendingEvents s =
               map (\<lambda>j. createEvent random stage j
                     (clock s0 + of_nat (j div nat \<lfloor>1 / (1000 / eventsPer1000Ticks (self s0))\<rfloor>)))
                 [0..<nat \<lfloor>1 / (1000 / eventsPer1000Ticks (self s0))\<rfloor> * i]"
  using i
proof (induction i)
  case 0
  show ?case using init by simp
next
  case (Suc i)
  define k where "k = \<lfloor>1 / (1000 / eventsPer1000Ticks (self s0))\<rfloor>"
  define K where "K = nat k"
  have k: "1 \<le> k" unfolding k_def using rate by (rule events_per_tick_pos)
  then have K: "0 < K" "int K = k" by (simp_all add: K_def)
  have lt: "k * int (Suc i) < N" using Suc.prems by (simp add: k_def)
  then have "k * int i < N" using k by (simp add: algebra_simps)
  with Suc.IH obtain s where s: "loop_head random stage N s0 i = Some s"
    "eventsPer1000Ticks (self s) = eventsPer1000Ticks (self s0)"
    "eventsSent s = k * int i"
    "clock s = clock s0 + of_nat i"
    "pendingEvents s =
       map (\<lambda>j. createEvent random stage j (clock s0 + of_nat (j div K))) [0..<K * i]"
    unfolding k_def K_def by auto
  have kk: "\<lfloor>eventsPer1000Ticks (self s0) / 1000\<rfloor> = k"
    by (simp add: k_def)
  have bs: "batch_size (eventsPer1000Ticks (self s)) N (eventsSent s) = k"
    using lt by (simp add: batch_size_def s kk algebra_simps)
  let ?s1 = "after_emit s
      (createEventBatch random stage (length (pendingEvents s)) (clock s) k) k"
  have "sendEvents_body random stage N s =
          (if N \<le> eventsSent s + k then Break ?s1 else Wait (Fin 1) ?s1)"
    using body_batch[of s random stage N] rate s(2) unfolding bs by simp
  moreover have "\<not> N \<le> eventsSent s + k"
    using lt s(3) by (simp add: algebra_simps)
  ultimately have b: "sendEvents_body random stage N s = Wait (Fin 1) ?s1"
    by simp
  have w: "metronome_wait (Fin 1) (clock ?s1) = Some (clock s + 1)"
    by simp
  have lh: "loop_head random stage N s0 (Suc i) = Some (?s1\<lparr>clock := clock s + 1\<rparr>)"
    by (rule loop_head_Suc_Some[OF s(1) b w])
  have pend: "pendingEvents ?s1 =
      map (\<lambda>j. createEvent random stage j (clock s0 + of_nat (j div K))) [0..<K * Suc i]"
  proof -
    have "createEventBatch random stage (length (pendingEvents s)) (clock s) k
          = map (\<lambda>j. createEvent random stage (K * i + j) (clock s0 + of_nat ((K * i + j) div K)))
              [0..<K]"
      using batch_schedule[OF K(1) order_refl, of random stage i "clock s0"] K(2)
      by (simp add: s)
    then have "pendingEvents ?s1 =
        map (\<lambda>j. createEvent random stage j (clock s0 + of_nat (j div K))) [0..<K * i]
        @ map (\<lambda>j. createEvent random stage (K * i + j) (clock s0 + of_nat ((K * i + j) div K)))
            [0..<K]"
      by (simp add: s)
    also have "\<dots> = map (\<lambda>j. createEvent random stage j (clock s0 + of_nat (j div K)))
                     [0..<K * i + K]"
      by (rule map_upt_append)
    also have "K * i + K = K * Suc i"
      by simp
    finally show ?thesis .
  qed
  have "loop_head random stage N s0 (Suc i) = Some (?s1\<lparr>clock := clock s + 1\<rparr>)
      \<and> eventsPer1000Ticks (self (?s1\<lparr>clock := clock s + 1\<rparr>)) = eventsPer1000Ticks (self s0)
      \<and> eventsSent (?s1\<lparr>clock := clock s + 1\<rparr>) = k * int (Suc i)
      \<and> clock (?s1\<lparr>clock := clock s + 1\<rparr>) = clock s0 + of_nat (Suc i)
      \<and> pendingEvents (?s1\<lparr>clock := clock s + 1\<rparr>) =
            map (\<lambda>j. createEvent random stage j (clock s0 + of_nat (j div K))) [0..<K * Suc i]"
  proof (intro conjI)
    show "loop_head random stage N s0 (Suc i) = Some (?s1\<lparr>clock := clock s + 1\<rparr>)"
      by (rule lh)
    show "eventsPer1000Ticks (self (?s1\<lparr>clock := clock s + 1\<rparr>)) = eventsPer1000Ticks (self s0)"
      by (simp add: s)
    show "eventsSent (?s1\<lparr>clock := clock s + 1\<rparr>) = k * int (Suc i)"
      by (simp add: s(3) distrib_left)
    show "clock (?s1\<lparr>clock := clock s + 1\<rparr>) = clock s0 + of_nat (Suc i)"
      by (simp add: s(4))
    show "pendingEvents (?s1\<lparr>clock := clock s + 1\<rparr>) =
            map (\<lambda>j. createEvent random stage j (clock s0 + of_nat (j div K))) [0..<K * Suc i]"
      using pend by simp
  qed
  then show ?case
    unfolding k_def K_def by blast
qed

lemma last_tick_arith:
  fixes k N :: int
  assumes "1 \<le> k" "1 \<le> N"
  shows "0 \<le> (N - 1) div k" "k * ((N - 1) div k) < N" "N - k * ((N - 1) div k) \<le> k"
proof -
  have pos: "0 < k" using assms(1) by simp
  show "0 \<le> (N - 1) div k"
    using assms pos by (simp add: pos_imp_zdiv_nonneg_iff)
  have eq: "N - 1 = k * ((N - 1) div k) + (N - 1) mod k"
    by simp
  have r: "0 \<le> (N - 1) mod k" "(N - 1) mod k < k"
    using pos by simp_all
  show "k * ((N - 1) div k) < N" using eq r(1) by linarith
  show "N - k * ((N - 1) div k) \<le> k" using eq r(2) by linarith
qed

lemma sendEvents_loop_batch:
  assumes rate: "1000 < eventsPer1000Ticks (self s0)"
    and init: "pendingEvents s0 = []" "eventsSent s0 = 0"
    and N: "1 \<le> N"
  shows "\<exists>sl s. loop_head random stage N s0
                  (nat ((N - 1) div \<lfloor>1 / (1000 / eventsPer1000Ticks (self s0))\<rfloor>)) = Some sl
           \<and> sendEvents_body random stage N sl = Break s
           \<and> sendEvents_loop random stage N s0 = Some s
           \<and> eventsPer1000Ticks (self s) = eventsPer1000Ticks (self s0)
           \<and> eventsSent s = N
           \<and> pendingEvents s = pendingEvents sl
               @ createEventBatch random stage (length (pendingEvents sl)) (clock sl)
                   (N - eventsSent sl)
           \<and> pendingEvents s =
               map (\<lambda>j. createEvent random stage j
                     (clock s0 + of_nat (j div nat \<lfloor>1 / (1000 / eventsPer1000Ticks (self s0))\<rfloor>)))
                 [0..<nat N]"
proof -
  define k where "k = \<lfloor>1 / (1000 / eventsPer1000Ticks (self s0))\<rfloor>"
  define K where "K = nat k"
  define n where "n = nat ((N - 1) div k)"
  have k: "1 \<le> k" unfolding k_def using rate by (rule events_per_tick_pos)
  then have K: "0 < K" "int K = k" by (simp_all add: K_def)
  note ar = last_tick_arith[OF k N]
  have n: "int n = (N - 1) div k" using ar(1) by (simp add: n_def)
  have lt: "k * int n < N" using ar(2) n by simp
  have le: "N - k * int n \<le> k" using ar(3) n by simp
  from loop_head_batch[OF rate init, of n N random stage] lt
  obtain sl where sl: "loop_head random stage N s0 n = Some sl"
    "eventsPer1000Ticks (self sl) = eventsPer1000Ticks (self s0)"
    "eventsSent sl = k * int n"
    "clock sl = clock s0 + of_nat n"
    "pendingEvents sl =
       map (\<lambda>j. createEvent random stage j (clock s0 + of_nat (j div K))) [0..<K * n]"
    unfolding k_def K_def by auto
  have kk: "\<lfloor>eventsPer1000Ticks (self s0) / 1000\<rfloor> = k"
    by (simp add: k_def)
  have bs: "batch_size (eventsPer1000Ticks (self sl)) N (eventsSent sl) = N - k * int n"
    using le by (auto simp: batch_size_def sl kk)
  let ?s = "after_emit sl
      (createEventBatch random stage (length (pendingEvents sl)) (clock sl) (N - k * int n))
      (N - k * int n)"
  have "sendEvents_body random stage N sl =
          (if N \<le> eventsSent sl + (N - k * int n) then Break ?s else Wait (Fin 1) ?s)"
    using body_batch[of sl random stage N] rate sl(2) unfolding bs by simp
  then have b: "sendEvents_body random stage N sl = Break ?s"
    by (simp add: sl(3))
  have ret: "sendEvents_loop random stage N s0 = Some ?s"
    by (rule loop_exit[OF sl(1) b])
  define m where "m = nat (N - k * int n)"
  have m1: "int m = N - k * int n"
    using lt by (simp add: m_def)
  have m2: "m \<le> K"
    using m1 le K(2) by linarith
  have "int (K * n + m) = N"
    using m1 K(2) by simp
  then have m3: "K * n + m = nat N"
    by linarith
  note m = m1 m2 m3
  have pend: "pendingEvents ?s =
      map (\<lambda>j. createEvent random stage j (clock s0 + of_nat (j div K))) [0..<nat N]"
  proof -
    have "createEventBatch random stage (length (pendingEvents sl)) (clock sl) (N - k * int n)
          = map (\<lambda>j. createEvent random stage (K * n + j) (clock s0 + of_nat ((K * n + j) div K)))
              [0..<m]"
      using batch_schedule[OF K(1) m(2), of random stage n "clock s0"] m(1)
      by (simp add: sl)
    then have "pendingEvents ?s =
        map (\<lambda>j. createEvent random stage j (clock s0 + of_nat (j div K))) [0..<K * n]
        @ map (\<lambda>j. createEvent random stage (K * n + j) (clock s0 + of_nat ((K * n + j) div K)))
            [0..<m]"
      by (simp add: sl)
    also have "\<dots> = map (\<lambda>j. createEvent random stage j (clock s0 + of_nat (j div K)))
                     [0..<K * n + m]"
      by (rule map_upt_append)
    finally show ?thesis by (simp only: m(3))
  qed
  have "loop_head random stage N s0 n = Some sl
      \<and> sendEvents_body random stage N sl = Break ?s
      \<and> sendEvents_loop random stage N s0 = Some ?s
      \<and> eventsPer1000Ticks (self ?s) = eventsPer1000Ticks (self s0)
      \<and> eventsSent ?s = N
      \<and> pendingEvents ?s = pendingEvents sl
           @ createEventBatch random stage (length (pendingEvents sl)) (clock sl)
               (N - eventsSent sl)
      \<and> pendingEvents ?s =
           map (\<lambda>j. createEvent random stage j (clock s0 + of_nat (j div K))) [0..<nat N]"
    using sl(1) b ret pend by (simp add: sl(2,3))
  then show ?thesis
    unfolding k_def K_def n_def by blast
qed

lemma initial_state_simps [simp]:
  "self (initial_state sim now) = sim" "clock (initial_state sim now) = now"
  "pendingEvents (initial_state sim now) = []" "eventsSent (initial_state sim now) = 0"
  by (simp_all add: initial_state_def)

lemma body_cases:
  "sendEvents_body random stage N s =
     (if eventsPer1000Ticks (self s) < 0 \<or> 1000 < eventsPer1000Ticks (self s) then
        (if N \<le> eventsSent s + batch_size (eventsPer1000Ticks (self s)) N (eventsSent s)
         then Break (after_emit s
                (createEventBatch random stage (length (pendingEvents s)) (clock s)
                   (batch_size (eventsPer1000Ticks (self s)) N (eventsSent s)))
                (batch_size (eventsPer1000Ticks (self s)) N (eventsSent s)))
         else Wait (Fin 1) (after_emit s
                (createEventBatch random stage (length (pendingEvents s)) (clock s)
                   (batch_size (eventsPer1000Ticks (self s)) N (eventsSent s)))
                (batch_size (eventsPer1000Ticks (self s)) N (eventsSent s))))
      else
        (if N \<le> eventsSent s + 1
         then Break (after_emit s [createEvent random stage (length (pendingEvents s)) (clock s)] 1)
         else Wait (js_div (Fin 1000) (Fin (eventsPer1000Ticks (self s))))
                (after_emit s [createEvent random stage (length (pendingEvents s)) (clock s)] 1)))"
proof (cases "eventsPer1000Ticks (self s) < 0 \<or> 1000 < eventsPer1000Ticks (self s)")
  case True
  then show ?thesis using body_batch[OF True] by simp
next
  case False
  show ?thesis
  proof (cases "eventsPer1000Ticks (self s) = 0")
    case True
    then show ?thesis using body_zero[OF True] by simp
  next
    case nz: False
    with False have "0 < eventsPer1000Ticks (self s)" "eventsPer1000Ticks (self s) \<le> 1000"
      by auto
    from body_single[OF this] False nz show ?thesis by simp
  qed
qed

lemma body_result:
  assumes "sendEvents_body random stage N s = Break s1 \<or> sendEvents_body random stage N s = Wait d s1"
  shows "self s1 = (self s)\<lparr>arrivalRate := eventsPer1000Ticks (self s)\<rparr>"
    and "clock s1 = clock s"
    and "\<exists>evs. pendingEvents s1 = pendingEvents s @ evs
               \<and> (\<forall>p \<in> set evs. \<exists>j. p = createEvent random stage j (clock s))"
  using assms
  by (auto simp: body_cases split: if_splits dest: createEventBatch_set)

lemma never_rejected_createEvent: "never_rejected (createEvent random stage i now)"
  by (simp add: never_rejected_def createEvent_not_rejected)

lemma body_never_rejected:
  assumes "sendEvents_body random stage N s = Break s1 \<or> sendEvents_body random stage N s = Wait d s1"
    and "\<forall>p \<in> set (pendingEvents s). never_rejected p"
  shows "\<forall>p \<in> set (pendingEvents s1). never_rejected p"
  using body_result(3)[OF assms(1)] assms(2) never_rejected_createEvent[of random stage]
  by (metis Un_iff set_append)

lemma sendEvents_loop_never_rejected:
  assumes "sendEvents_loop random stage N s = Some s'"
    and "\<forall>p \<in> set (pendingEvents s). never_rejected p"
  shows "\<forall>p \<in> set (pendingEvents s'). never_rejected p"
proof (rule sendEvents_loop_rule[OF assms(1),
    where I = "\<lambda>s. \<forall>p \<in> set (pendingEvents s). never_rejected p"])
  show "\<forall>p \<in> set (pendingEvents s). never_rejected p" by (rule assms(2))
next
  fix s s1
  assume "\<forall>p \<in> set (pendingEvents s). never_rejected p"
    and "sendEvents_body random stage N s = Break s1"
  then show "\<forall>p \<in> set (pendingEvents s1). never_rejected p"
    using body_never_rejected[of random stage N s s1] by blast
next
  fix s d s1 t
  assume "\<forall>p \<in> set (pendingEvents s). never_rejected p"
    and "sendEvents_body random stage N s = Wait d s1"
  then have "\<forall>p \<in> set (pendingEvents s1). never_rejected p"
    using body_never_rejected[of random stage N s s1 d] by blast
  then show "\<forall>p \<in> set (pendingEvents (s1\<lparr>clock := t\<rparr>)). never_rejected p"
    by simp
qed

lemma sendEvents_loop_rate:
  assumes "sendEvents_loop random stage N s = Some s'"
  shows "self s' = (self s)\<lparr>arrivalRate := eventsPer1000Ticks (self s)\<rparr>"
proof (rule sendEvents_loop_rule[OF assms,
    where I = "\<lambda>x. self x = self s \<or> self x = (self s)\<lparr>arrivalRate := eventsPer1000Ticks (self s)\<rparr>"])
  show "self s = self s \<or> self s = (self s)\<lparr>arrivalRate := eventsPer1000Ticks (self s)\<rparr>"
    by simp
next
  fix x s1
  assume "self x = self s \<or> self x = (self s)\<lparr>arrivalRate := eventsPer1000Ticks (self s)\<rparr>"
    and "sendEvents_body random stage N x = Break s1"
  then show "self s1 = (self s)\<lparr>arrivalRate := eventsPer1000Ticks (self s)\<rparr>"
    using body_result(1)[of random stage N x s1] by auto
next
  fix x d s1 t
  assume "self x = self s \<or> self x = (self s)\<lparr>arrivalRate := eventsPer1000Ticks (self s)\<rparr>"
    and "sendEvents_body random stage N x = Wait d s1"
  then have "self s1 = (self s)\<lparr>arrivalRate := eventsPer1000Ticks (self s)\<rparr>"
    using body_result(1)[of random stage N x s1 d] by auto
  then show "self (s1\<lparr>clock := t\<rparr>) = self s
      \<or> self (s1\<lparr>clock := t\<rparr>) = (self s)\<lparr>arrivalRate := eventsPer1000Ticks (self s)\<rparr>"
    by simp
qed

lemma sendEvents_Some:
  "sendEvents random sim now stage N = Some s \<longleftrightarrow>
     (\<exists>s'. sendEvents_loop random stage N (initial_state sim now) = Some s'
           \<and> s = s'\<lparr>self := (self s')\<lparr>arrivalRate := 0\<rparr>\<rparr>)"
  by (auto simp: sendEvents_def split: option.splits)

lemma sendEvents_self:
  assumes "sendEvents random sim now stage N = Some s"
  shows "self s = sim\<lparr>arrivalRate := 0\<rparr>"
    and "\<forall>p \<in> set (pendingEvents s). never_rejected p"
proof -
  from assms obtain s' where s': "sendEvents_loop random stage N (initial_state sim now) = Some s'"
    "s = s'\<lparr>self := (self s')\<lparr>arrivalRate := 0\<rparr>\<rparr>"
    by (auto simp: sendEvents_Some)
  from sendEvents_loop_rate[OF s'(1)] s'(2) show "self s = sim\<lparr>arrivalRate := 0\<rparr>"
    by simp
  from sendEvents_loop_never_rejected[OF s'(1)] s'(2)
  show "\<forall>p \<in> set (pendingEvents s). never_rejected p"
    by simp
qed

lemma run_never_rejected: "run random sim stage N \<noteq> Some (sim', Rejected r)"
proof
  assume "run random sim stage N = Some (sim', Rejected r)"
  then obtain s t where s: "sendEvents random sim metronome_start stage N = Some s"
    and p: "promise_all (clock s) (pendingEvents s) = Settled t (Rejected r)"
    by (auto simp: run_def split: option.splits promise.splits)
  from promise_all_not_rejected[OF sendEvents_self(2)[OF s]] p show False
    by blast
qed

lemma run_Some:
  assumes "run random sim stage N = Some (sim', r)"
  shows "sim' = sim\<lparr>arrivalRate := 0\<rparr>"
  using assms sendEvents_self(1)
  by (auto simp: run_def split: option.splits promise.splits)

lemma loop_head_rate:
  "loop_head random stage N (initial_state sim now) i = Some s \<Longrightarrow>
     eventsPer1000Ticks (self s) = eventsPer1000Ticks sim
     \<and> (0 < i \<longrightarrow> arrivalRate (self s) = eventsPer1000Ticks sim)"
proof (induction i arbitrary: s)
  case 0
  then show ?case by auto
next
  case (Suc i)
  from Suc.prems obtain s' d s1 t where
    h: "loop_head random stage N (initial_state sim now) i = Some s'"
    and b: "sendEvents_body random stage N s' = Wait d s1"
    and s: "s = s1\<lparr>clock := t\<rparr>"
    by (auto split: option.splits iteration.splits)
  from body_result(1)[of random stage N s' s1 d] b Suc.IH[OF h] s show ?case
    by simp
qed


lemma createEvent_settles:
  assumes "accept stage i (submittedEvent random i now) \<noteq> Pending"
    and "\<forall>t out. accept stage i (submittedEvent random i now) = Settled t out \<longrightarrow> now \<le> t"
  shows "\<exists>t e. createEvent random stage i now = Settled t (Fulfilled e)
           \<and> startTime (responseTime e) \<le> endTime (responseTime e)"
proof (cases "accept stage i (submittedEvent random i now)")
  case (Settled t out)
  with assms(2) have "now \<le> t" by simp
  with Settled show ?thesis
    by (cases out) (simp_all add: createEvent_cases submittedEvent_startTime)
next
  case Pending
  with assms(1) show ?thesis by simp
qed

lemma sendEvents_loop_schedule:
  assumes rate: "0 < eventsPer1000Ticks sim" and N: "1 \<le> N"
  shows "\<exists>s f. sendEvents_loop random stage N (initial_state sim now) = Some s
           \<and> eventsSent s = N
           \<and> pendingEvents s = map (\<lambda>j. createEvent random stage j (f j)) [0..<nat N]
           \<and> (\<forall>j. now \<le> f j)"
proof (cases "eventsPer1000Ticks sim \<le> 1000")
  case True
  from sendEvents_loop_single[of "initial_state sim now" N random stage] rate True N
  obtain s where s: "sendEvents_loop random stage N (initial_state sim now) = Some s"
    "eventsSent s = N"
    "pendingEvents s =
       map (\<lambda>j. createEvent random stage j (now + of_nat j * (1000 / eventsPer1000Ticks sim)))
         [0..<nat N]"
    by auto
  have "\<forall>j. now \<le> now + of_nat j * (1000 / eventsPer1000Ticks sim)"
    using rate by simp
  with s show ?thesis
    by (intro exI[of _ s] exI[of _ "\<lambda>j. now + of_nat j * (1000 / eventsPer1000Ticks sim)"]) simp
next
  case False
  then have "1000 < eventsPer1000Ticks sim" by simp
  from sendEvents_loop_batch[of "initial_state sim now" N random stage] this N
  obtain s where s: "sendEvents_loop random stage N (initial_state sim now) = Some s"
    "eventsSent s = N"
    "pendingEvents s =
       map (\<lambda>j. createEvent random stage j
                   (now + of_nat (j div nat \<lfloor>1 / (1000 / eventsPer1000Ticks sim)\<rfloor>)))
         [0..<nat N]"
    by auto
  have "\<forall>j. now \<le> now + of_nat (j div nat \<lfloor>1 / (1000 / eventsPer1000Ticks sim)\<rfloor>)"
    by simp
  with s show ?thesis
    by (intro exI[of _ s]
          exI[of _ "\<lambda>j. now + of_nat (j div nat \<lfloor>1 / (1000 / eventsPer1000Ticks sim)\<rfloor>)"])
       simp
qed

text \<open>
  With a positive rate and at least one event to send, and a stage that settles every call
  no earlier than it was made, \<^verbatim>\<open>run\<close> returns exactly \<open>N\<close> events, each ending no
  earlier than it started.
\<close>

lemma run_returns_all_events:
  assumes rate: "0 < eventsPer1000Ticks sim" and N: "1 \<le> N"
    and settle: "\<forall>i e. accept stage i e \<noteq> Pending"
    and mono: "\<forall>i e t out. accept stage i e = Settled t out \<longrightarrow> startTime (responseTime e) \<le> t"
  shows "\<exists>evs. run random sim stage N = Some (sim\<lparr>arrivalRate := 0\<rparr>, Fulfilled evs)
           \<and> int (length evs) = N
           \<and> (\<forall>e \<in> set evs. startTime (responseTime e) \<le> endTime (responseTime e))"
proof -
  from sendEvents_loop_schedule[OF rate N, of random stage metronome_start]
  obtain s f where s: "sendEvents_loop random stage N (initial_state sim metronome_start) = Some s"
    "pendingEvents s = map (\<lambda>j. createEvent random stage j (f j)) [0..<nat N]"
    by blast
  define s' where "s' = s\<lparr>self := (self s)\<lparr>arrivalRate := 0\<rparr>\<rparr>"
  have se: "sendEvents random sim metronome_start stage N = Some s'"
    using s(1) by (simp add: sendEvents_def s'_def)
  have self: "self s' = sim\<lparr>arrivalRate := 0\<rparr>"
    by (rule sendEvents_self(1)[OF se])
  have pend: "pendingEvents s' = map (\<lambda>j. createEvent random stage j (f j)) [0..<nat N]"
    using s(2) by (simp add: s'_def)
  have "\<forall>p \<in> set (pendingEvents s'). \<exists>t e. p = Settled t (Fulfilled e)
          \<and> startTime (responseTime e) \<le> endTime (responseTime e)"
  proof
    fix p assume "p \<in> set (pendingEvents s')"
    then obtain j where p: "p = createEvent random stage j (f j)"
      using pend by auto
    have "\<forall>t out. accept stage j (submittedEvent random j (f j)) = Settled t out \<longrightarrow> f j \<le> t"
      using mono submittedEvent_startTime[of random j "f j"] by metis
    from createEvent_settles[OF _ this] settle p
    show "\<exists>t e. p = Settled t (Fulfilled e)
            \<and> startTime (responseTime e) \<le> endTime (responseTime e)"
      by simp
  qed
  from promise_all_fulfilled[OF this, of "clock s'"]
  obtain T evs where evs: "promise_all (clock s') (pendingEvents s') = Settled T (Fulfilled evs)"
    "length evs = length (pendingEvents s')"
    "\<forall>e \<in> set evs. startTime (responseTime e) \<le> endTime (responseTime e)"
    by blast
  have "run random sim stage N = Some (sim\<lparr>arrivalRate := 0\<rparr>, Fulfilled evs)"
    by (simp add: run_def se evs(1) self)
  moreover have "int (length evs) = N"
    using evs(2) pend N by simp
  ultimately show ?thesis
    using evs(3) by blast
qed













section \<open>Claims about the statistics\<close>











text \<open>
  Claim C5 as stated fails when a bucket is empty: for a single successful event, and for
  no event at all, the difference of the mean latencies of the empty bucket is the text
  \<^verbatim>\<open>NaN\<close>, not zero.
\<close>

theorem eventCompare_self_counterexample:
  "get_prop (eventCompare sd_of_equal_samples
       [finished_event (Prim (JString ''success'')) 0 1]
       [finished_event (Prim (JString ''success'')) 0 1] ! 1) ''mean_latency''
     = Some (CStr ''NaN'')
   \<and> get_prop (eventCompare sd_of_equal_samples [] [] ! 0) ''mean_latency'' = Some (CStr ''NaN'')"
  by code_simp

lemma count_self_difference:
  "js_sub (toNumber (Some (format_cell 3 (count_col b)))) (toNumber (Some (format_cell 3 (count_col b))))
     = Fin 0"
  by (simp add: format_cell_count)

lemma percent_is_Fin: "\<exists>q. percent events b = Fin q"
  by (simp add: percent_def)

lemma percent_self_difference:
  "toFixed 3 (js_sub (parseFloat_cell (Some (format_cell 3 (percent events b))))
                     (parseFloat_cell (Some (format_cell 3 (percent events b))))) = ''0.000''"
proof -
  obtain q where "percent events b = Fin q" using percent_is_Fin by blast
  then show ?thesis by (simp add: self_difference)
qed

lemma mean_self_difference:
  "toFixed 3 (js_sub (parseFloat_cell (Some (format_cell 3 (mean_latency b))))
                     (parseFloat_cell (Some (format_cell 3 (mean_latency b)))))
     = (if b = [] then ''NaN'' else ''0.000'')"
  by (simp add: self_difference mean_latency_eq)

lemma std_self_difference:
  "toFixed 3 (js_sub (parseFloat_cell (Some (format_cell 3 (std_latency sd b))))
                     (parseFloat_cell (Some (format_cell 3 (std_latency sd b)))))
     = (case sd (map latency b) of Fin q \<Rightarrow> ''0.000'' | _ \<Rightarrow> ''NaN'')"
  by (simp add: self_difference std_latency_def)

lemma diff_row_self:
  assumes "get_prop r ''count'' = Some (format_cell 3 (count_col b))"
    and "get_prop r ''percent'' = Some (format_cell 3 (percent events b))"
    and "get_prop r ''mean_latency'' = Some (format_cell 3 (mean_latency b))"
    and "get_prop r ''std_latency'' = Some (format_cell 3 (std_latency sd b))"
  shows "diff_row 3 ty r r =
     \<lparr>rtype = ty,
      props = [(''count'', CNum (Fin 0)), (''percent'', CStr ''0.000''),
               (''mean_latency'', CStr (if b = [] then ''NaN'' else ''0.000'')),
               (''std_latency'',
                  CStr (case sd (map latency b) of Fin q \<Rightarrow> ''0.000'' | _ \<Rightarrow> ''NaN''))]\<rparr>"
  unfolding diff_row_def assms
  by (simp only: count_self_difference percent_self_difference mean_self_difference
        std_self_difference)

text \<open>
  Claim C5, amended. Comparing a collection with itself gives, in both rows, the count
  difference \<open>0\<close> and the percent difference \<^verbatim>\<open>0.000\<close>; the difference of the mean
  latencies is \<^verbatim>\<open>0.000\<close> for a bucket with events and \<^verbatim>\<open>NaN\<close> for an empty one;
  the difference of the standard deviations is \<^verbatim>\<open>0.000\<close> when the standard deviation
  of the bucket is a finite number and \<^verbatim>\<open>NaN\<close> otherwise.
\<close>

theorem eventCompare_self:
  "eventCompare sd a a =
     [\<lparr>rtype = ''success'',
       props = [(''count'', CNum (Fin 0)), (''percent'', CStr ''0.000''),
                (''mean_latency'', CStr (if success_bucket a = [] then ''NaN'' else ''0.000'')),
                (''std_latency'',
                   CStr (case sd (map latency (success_bucket a)) of
                           Fin q \<Rightarrow> ''0.000'' | _ \<Rightarrow> ''NaN''))]\<rparr>,
      \<lparr>rtype = ''fail'',
       props = [(''count'', CNum (Fin 0)), (''percent'', CStr ''0.000''),
                (''mean_latency'', CStr (if fail_bucket a = [] then ''NaN'' else ''0.000'')),
                (''std_latency'',
                   CStr (case sd (map latency (fail_bucket a)) of
                           Fin q \<Rightarrow> ''0.000'' | _ \<Rightarrow> ''NaN''))]\<rparr>]"
  unfolding eventCompare_def Let_def
  by (simp only: diff_row_self[OF summary_success_props] diff_row_self[OF summary_fail_props] One_nat_def)

section \<open>Claims about the simulation\<close>

text \<open>
  Claim C3. Whether the promise of \<^verbatim>\<open>accept\<close> is fulfilled or rejected, the promise of
  the event is fulfilled with the event, at the same virtual time: its response is the
  value or the reason, its end time is that time. Every event of a batch is settled by
  its own call of \<^verbatim>\<open>accept\<close> alone, and the promise that \<^verbatim>\<open>run\<close> returns is never
  rejected.
\<close>

theorem stage_failure_is_captured:
  "createEvent random stage i now =
     (case accept stage i (submittedEvent random i now) of
        Settled t (Fulfilled v) \<Rightarrow>
          Settled t (Fulfilled ((submittedEvent random i now)
            \<lparr>response := v,
             responseTime := (responseTime (submittedEvent random i now))\<lparr>endTime := t\<rparr>\<rparr>))
      | Settled t (Rejected r) \<Rightarrow>
          Settled t (Fulfilled ((submittedEvent random i now)
            \<lparr>response := r,
             responseTime := (responseTime (submittedEvent random i now))\<lparr>endTime := t\<rparr>\<rparr>))
      | Pending \<Rightarrow> Pending)
   \<and> length (createEventBatch random stage i now num) = nat num
   \<and> (\<forall>j < nat num.
        createEventBatch random stage i now num ! j = createEvent random stage (i + j) now)
   \<and> run random sim stage N \<noteq> Some (sim', Rejected reason)"
  using createEvent_cases[of random stage i now] run_never_rejected[of random sim stage N sim' reason]
  by (simp add: length_createEventBatch createEventBatch_nth)

text \<open>
  Claim C3 on a batch of two events whose first call is rejected with \<^verbatim>\<open>"fail"\<close> and
  whose second call is fulfilled: both events are returned.
\<close>

theorem stage_failure_is_captured_witness:
  "(1::nat) < nat 2
   \<and> createEventBatch constant_random (alternating_stage 2) 0 0 2 ! 0
       = Settled 2 (Fulfilled (finished_event (Prim (JString ''fail'')) 0 2))
   \<and> createEventBatch constant_random (alternating_stage 2) 0 0 2 ! 1
       = Settled 2 (Fulfilled (finished_event (Prim (JString ''success'')) 0 2))
   \<and> run constant_random (simulation\<lparr>eventsPer1000Ticks := 2000\<rparr>) (alternating_stage 2) 2
       = Some (simulation\<lparr>eventsPer1000Ticks := 2000\<rparr>,
               Fulfilled [finished_event (Prim (JString ''fail'')) 0 2,
                          finished_event (Prim (JString ''success'')) 0 2])"
proof -
  have ev: "createEvent constant_random (alternating_stage 2) 0 0
       = Settled 2 (Fulfilled (finished_event (Prim (JString ''fail'')) 0 2))"
    "createEvent constant_random (alternating_stage 2) (Suc 0) 0
       = Settled 2 (Fulfilled (finished_event (Prim (JString ''success'')) 0 2))"
    "run constant_random (simulation\<lparr>eventsPer1000Ticks := 2000\<rparr>) (alternating_stage 2) 2
       = Some (simulation\<lparr>eventsPer1000Ticks := 2000\<rparr>,
               Fulfilled [finished_event (Prim (JString ''fail'')) 0 2,
                          finished_event (Prim (JString ''success'')) 0 2])"
    by code_simp+
  show ?thesis
    using stage_failure_is_captured[of constant_random "alternating_stage 2" 0 0 2
        "simulation\<lparr>eventsPer1000Ticks := 2000\<rparr>" 2 simulation "Prim JUndefined"]
    by (simp add: ev)
qed

text \<open>
  Claim C8. After every pass of the loop of \<^verbatim>\<open>sendEvents\<close>, whether it ends in a wait
  or in the \<^verbatim>\<open>break\<close>, and so at the top of every later pass, \<^verbatim>\<open>getArrivalRate\<close>
  returns the configured \<^verbatim>\<open>eventsPer1000Ticks\<close>; when \<^verbatim>\<open>sendEvents\<close> or \<^verbatim>\<open>run\<close> has
  returned it returns zero, as it does on a new simulation object.
\<close>

theorem arrival_rate_accessor:
  "(sendEvents_body random stage N s = Wait d s1 \<longrightarrow>
      getArrivalRate (self s1) = eventsPer1000Ticks (self s)
      \<and> eventsPer1000Ticks (self s1) = eventsPer1000Ticks (self s))
   \<and> (sendEvents_body random stage N s = Break s4 \<longrightarrow>
        getArrivalRate (self s4) = eventsPer1000Ticks (self s))
   \<and> (loop_head random stage N (initial_state sim now) (Suc i) = Some s2 \<longrightarrow>
        getArrivalRate (self s2) = eventsPer1000Ticks sim)
   \<and> (sendEvents random sim now stage N = Some s3 \<longrightarrow>
        getArrivalRate (self s3) = 0 \<and> eventsPer1000Ticks (self s3) = eventsPer1000Ticks sim)
   \<and> (run random sim stage N = Some (sim', r) \<longrightarrow>
        getArrivalRate sim' = 0 \<and> eventsPer1000Ticks sim' = eventsPer1000Ticks sim)
   \<and> getArrivalRate simulation = 0"
proof -
  have a: "sendEvents_body random stage N s = Wait d s1 \<longrightarrow>
      getArrivalRate (self s1) = eventsPer1000Ticks (self s)
      \<and> eventsPer1000Ticks (self s1) = eventsPer1000Ticks (self s)"
    using body_result(1)[of random stage N s s1 d] by (simp add: getArrivalRate_def)
  have b: "loop_head random stage N (initial_state sim now) (Suc i) = Some s2 \<longrightarrow>
        getArrivalRate (self s2) = eventsPer1000Ticks sim"
    using loop_head_rate[of random stage N sim now "Suc i" s2] by (simp add: getArrivalRate_def)
  have c: "sendEvents random sim now stage N = Some s3 \<longrightarrow>
        getArrivalRate (self s3) = 0 \<and> eventsPer1000Ticks (self s3) = eventsPer1000Ticks sim"
    using sendEvents_self(1)[of random sim now stage N s3] by (simp add: getArrivalRate_def)
  have d: "run random sim stage N = Some (sim', r) \<longrightarrow>
        getArrivalRate sim' = 0 \<and> eventsPer1000Ticks sim' = eventsPer1000Ticks sim"
    using run_Some[of random sim stage N sim' r] by (auto simp: getArrivalRate_def)
  have e: "getArrivalRate simulation = 0"
    by (simp add: getArrivalRate_def simulation_def)
  have f: "sendEvents_body random stage N s = Break s4 \<longrightarrow>
        getArrivalRate (self s4) = eventsPer1000Ticks (self s)"
    using body_result(1)[of random stage N s s4] by (simp add: getArrivalRate_def)
  from a b c d e f show ?thesis by blast
qed

text \<open>
  Claim C8 at two events per tick: on the first pass of a run of three events, which
  waits, on the only pass of a run of two events, which leaves the loop, and on the run of
  three events as a whole.
\<close>

theorem arrival_rate_accessor_witness:
  "sendEvents_body constant_random (fulfilling_stage (Prim (JString ''success'')) 0) 3
       (initial_state (simulation\<lparr>eventsPer1000Ticks := 2000\<rparr>) 0)
     = Wait (Fin 1)
         (after_emit (initial_state (simulation\<lparr>eventsPer1000Ticks := 2000\<rparr>) 0)
            (createEventBatch constant_random (fulfilling_stage (Prim (JString ''success'')) 0) 0 0 2)
            2)
   \<and> getArrivalRate (self
         (after_emit (initial_state (simulation\<lparr>eventsPer1000Ticks := 2000\<rparr>) 0)
            (createEventBatch constant_random (fulfilling_stage (Prim (JString ''success'')) 0) 0 0 2)
            2)) = 2000
   \<and> sendEvents_body constant_random (fulfilling_stage (Prim (JString ''success'')) 0) 2
         (initial_state (simulation\<lparr>eventsPer1000Ticks := 2000\<rparr>) 0)
       = Break
           (after_emit (initial_state (simulation\<lparr>eventsPer1000Ticks := 2000\<rparr>) 0)
              (createEventBatch constant_random (fulfilling_stage (Prim (JString ''success'')) 0) 0 0 2)
              2)
   \<and> loop_head constant_random (fulfilling_stage (Prim (JString ''success'')) 0) 3
         (initial_state (simulation\<lparr>eventsPer1000Ticks := 2000\<rparr>) 0) (Suc 0) \<noteq> None
   \<and> getArrivalRate (self (the
         (loop_head constant_random (fulfilling_stage (Prim (JString ''success'')) 0) 3
            (initial_state (simulation\<lparr>eventsPer1000Ticks := 2000\<rparr>) 0) (Suc 0)))) = 2000
   \<and> sendEvents constant_random (simulation\<lparr>eventsPer1000Ticks := 2000\<rparr>) 0
         (fulfilling_stage (Prim (JString ''success'')) 0) 3 \<noteq> None
   \<and> getArrivalRate (self (the
         (sendEvents constant_random (simulation\<lparr>eventsPer1000Ticks := 2000\<rparr>) 0
            (fulfilling_stage (Prim (JString ''success'')) 0) 3))) = 0
   \<and> run constant_random (simulation\<lparr>eventsPer1000Ticks := 2000\<rparr>)
         (fulfilling_stage (Prim (JString ''success'')) 0) 3
       = Some (simulation\<lparr>eventsPer1000Ticks := 2000\<rparr>,
               Fulfilled [finished_event (Prim (JString ''success'')) 0 0,
                          finished_event (Prim (JString ''success'')) 0 0,
                          finished_event (Prim (JString ''success'')) 1 1])
   \<and> getArrivalRate (simulation\<lparr>eventsPer1000Ticks := 2000\<rparr>) = 0"
proof -
  have b: "sendEvents_body constant_random (fulfilling_stage (Prim (JString ''success'')) 0) 3
       (initial_state (simulation\<lparr>eventsPer1000Ticks := 2000\<rparr>) 0)
     = Wait (Fin 1)
         (after_emit (initial_state (simulation\<lparr>eventsPer1000Ticks := 2000\<rparr>) 0)
            (createEventBatch constant_random (fulfilling_stage (Prim (JString ''success'')) 0) 0 0 2)
            2)"
    by code_simp
  have b2: "sendEvents_body constant_random (fulfilling_stage (Prim (JString ''success'')) 0) 2
         (initial_state (simulation\<lparr>eventsPer1000Ticks := 2000\<rparr>) 0)
       = Break
           (after_emit (initial_state (simulation\<lparr>eventsPer1000Ticks := 2000\<rparr>) 0)
              (createEventBatch constant_random (fulfilling_stage (Prim (JString ''success'')) 0) 0 0 2)
              2)"
    by code_simp
  have h: "loop_head constant_random (fulfilling_stage (Prim (JString ''success'')) 0) 3
         (initial_state (simulation\<lparr>eventsPer1000Ticks := 2000\<rparr>) 0) (Suc 0) \<noteq> None"
    by code_simp
  have s: "sendEvents constant_random (simulation\<lparr>eventsPer1000Ticks := 2000\<rparr>) 0
         (fulfilling_stage (Prim (JString ''success'')) 0) 3 \<noteq> None"
    by code_simp
  have r: "run constant_random (simulation\<lparr>eventsPer1000Ticks := 2000\<rparr>)
         (fulfilling_stage (Prim (JString ''success'')) 0) 3
       = Some (simulation\<lparr>eventsPer1000Ticks := 2000\<rparr>,
               Fulfilled [finished_event (Prim (JString ''success'')) 0 0,
                          finished_event (Prim (JString ''success'')) 0 0,
                          finished_event (Prim (JString ''success'')) 1 1])"
    by code_simp
  show ?thesis
    using b b2 h s r
      arrival_rate_accessor[of constant_random "fulfilling_stage (Prim (JString ''success'')) 0" 2
        "initial_state (simulation\<lparr>eventsPer1000Ticks := 2000\<rparr>) 0" "Fin 1"
        "initial_state simulation 0"
        "after_emit (initial_state (simulation\<lparr>eventsPer1000Ticks := 2000\<rparr>) 0)
            (createEventBatch constant_random (fulfilling_stage (Prim (JString ''success'')) 0) 0 0 2)
            2"
        simulation 0 0 "initial_state simulation 0" "initial_state simulation 0" simulation
        "Fulfilled []"]
      arrival_rate_accessor[of constant_random "fulfilling_stage (Prim (JString ''success'')) 0" 3
        "initial_state (simulation\<lparr>eventsPer1000Ticks := 2000\<rparr>) 0" "Fin 1"
        "after_emit (initial_state (simulation\<lparr>eventsPer1000Ticks := 2000\<rparr>) 0)
            (createEventBatch constant_random (fulfilling_stage (Prim (JString ''success'')) 0) 0 0 2)
            2"
        "initial_state simulation 0"
        "simulation\<lparr>eventsPer1000Ticks := 2000\<rparr>" 0 0
        "the (loop_head constant_random (fulfilling_stage (Prim (JString ''success'')) 0) 3
            (initial_state (simulation\<lparr>eventsPer1000Ticks := 2000\<rparr>) 0) (Suc 0))"
        "the (sendEvents constant_random (simulation\<lparr>eventsPer1000Ticks := 2000\<rparr>) 0
            (fulfilling_stage (Prim (JString ''success'')) 0) 3)"
        "simulation\<lparr>eventsPer1000Ticks := 2000\<rparr>"
        "Fulfilled [finished_event (Prim (JString ''success'')) 0 0,
                          finished_event (Prim (JString ''success'')) 0 0,
                          finished_event (Prim (JString ''success'')) 1 1]"]
    by auto
qed




text \<open>
  Claim C1 fails on the code for \<open>N = 0\<close> at the default rate of 50 events per 1000
  ticks, for every stage: the single-event branch creates an event before it compares
  \<^verbatim>\<open>eventsSent\<close> with \<^verbatim>\<open>numEventsToSend\<close>, so that one event is submitted and returned.
  The batching branch, at 2000 events per 1000 ticks, returns the empty collection.
\<close>

theorem run_zero_events_submits_one:
  "sendEvents random simulation now stage 0 =
     Some \<lparr>self = simulation, clock = now,
           pendingEvents = [createEvent random stage 0 now], eventsSent = 1\<rparr>
   \<and> run constant_random simulation (fulfilling_stage (Prim (JString ''success'')) 3) 0 =
     Some (simulation, Fulfilled [finished_event (Prim (JString ''success'')) 0 3])
   \<and> run constant_random (simulation\<lparr>eventsPer1000Ticks := 2000\<rparr>)
       (fulfilling_stage (Prim (JString ''success'')) 3) 0 =
     Some (simulation\<lparr>eventsPer1000Ticks := 2000\<rparr>, Fulfilled [])"
proof -
  have rate: "0 < eventsPer1000Ticks (self (initial_state simulation now))"
    "eventsPer1000Ticks (self (initial_state simulation now)) \<le> 1000"
    by (simp_all add: simulation_def)
  have "sendEvents_body random stage 0 (initial_state simulation now) =
      Break (after_emit (initial_state simulation now) [createEvent random stage 0 now] 1)"
    using body_single[OF rate, of random stage 0] by simp
  then have "sendEvents_loop random stage 0 (initial_state simulation now) =
      Some (after_emit (initial_state simulation now) [createEvent random stage 0 now] 1)"
    by (subst sendEvents_loop.simps) simp
  then have a: "sendEvents random simulation now stage 0 =
     Some \<lparr>self = simulation, clock = now,
           pendingEvents = [createEvent random stage 0 now], eventsSent = 1\<rparr>"
    by (simp add: sendEvents_def after_emit_def simulation_def)
  have b: "run constant_random simulation (fulfilling_stage (Prim (JString ''success'')) 3) 0 =
     Some (simulation, Fulfilled [finished_event (Prim (JString ''success'')) 0 3])"
    by code_simp
  have c: "run constant_random (simulation\<lparr>eventsPer1000Ticks := 2000\<rparr>)
       (fulfilling_stage (Prim (JString ''success'')) 3) 0 =
     Some (simulation\<lparr>eventsPer1000Ticks := 2000\<rparr>, Fulfilled [])"
    by code_simp
  from a b c show ?thesis by simp
qed







end
